theory Spec2Isabelle
  imports
    Complex_Main
    "HOL-Library.Char_ord"
    "HOL-Library.List_Lexorder"
    "HOL-Library.Product_Lexorder"
begin

section \<open>Interest accrual and reimbursement lifecycle of the APR service\<close>

text \<open>
  The development embeds the three services of \<^verbatim>\<open>backend/src/services\<close>
  (\<^verbatim>\<open>interestService.ts\<close>, \<^verbatim>\<open>vaultSupplyService.ts\<close>, \<^verbatim>\<open>reimbursementService.ts\<close>)
  together with the tables of the migrations they read and write.

  Conventions of the embedding:
  \<^item> JavaScript numbers and SQL \<^verbatim>\<open>DECIMAL\<close> cells are exact rationals. The rounding of
    IEEE doubles is not modelled. The cells of the snapshot tables and \<^verbatim>\<open>current_debt\<close>
    keep the exact value they are given: the recorded amounts are those of the formulas,
    not their roundings to the scale of the column. The one cell whose scale is modelled
    is the \<^verbatim>\<open>amount\<close> that \<^verbatim>\<open>createReimbursement\<close> stores (\<open>decimal18\<close>): the code
    tests \<^verbatim>\<open>> 0\<close> on the number before the column rounds it, and rounding to a scale
    keeps \<open>\<le>\<close> but not \<open><\<close>.
  \<^item> An instant is a number of seconds; \<^verbatim>\<open>DATE(t)\<close>, \<^verbatim>\<open>$1::date\<close> and the value a
    \<^verbatim>\<open>DATE\<close> column keeps of a timestamp are the day number \<open>date_of t\<close>.
  \<^item> There are two clocks, and nothing relates them. The clock of the database server
    gives \<^verbatim>\<open>NOW()\<close> and \<^verbatim>\<open>CURRENT_DATE\<close>: it is the argument \<open>now\<close> of the methods
    that run such a statement. The clock of the Node process gives \<^verbatim>\<open>new Date()\<close>: it
    is the field \<open>js_clock\<close> of the world. One call of a service method reads each
    clock once.
  \<^item> A table is the list of its rows in storage order. Columns that no modelled
    statement reads or writes are left out.
  \<^item> A join whose partner columns the code does not read, on a column that the schema
    declares \<^verbatim>\<open>PRIMARY KEY\<close> or \<^verbatim>\<open>UNIQUE\<close>, keeps or drops a row and never
    multiplies it: it is a filter on the existence of the partner row.
  \<^item> The database itself never fails (connection, constraint and overflow errors are
    outside the model); what the code throws by itself is a value \<open>Inl (Error msg)\<close>.
\<close>

subsection \<open>Values\<close>

type_synonym day = int
type_synonym instant = int

definition date_of :: "instant \<Rightarrow> day" where
  "date_of t = t div 86400"

text \<open>
  The cell \<^verbatim>\<open>markets.apr_cap\<close> as the database driver hands it to JavaScript. The
  driver's configuration (\<^verbatim>\<open>config/database\<close>) is not part of the sources: the
  default of node-postgres delivers a \<^verbatim>\<open>DECIMAL\<close> as its decimal text (\<open>JsString q\<close>,
  the text that spells \<open>q\<close>, never empty), a driver with a numeric type parser delivers
  a number (\<open>JsNumber q\<close>). The difference is visible to \<^verbatim>\<open>||\<close> only.
\<close>

datatype js_value = JsNumber rat | JsString rat

fun js_truthy :: "js_value \<Rightarrow> bool" where
  "js_truthy (JsNumber q) = (q \<noteq> 0)"
| "js_truthy (JsString q) = True"

text \<open>\<^verbatim>\<open>parseFloat(v)\<close> and the numeric coercion of \<^verbatim>\<open>v / 365\<close>.\<close>

fun js_number :: "js_value \<Rightarrow> rat" where
  "js_number (JsNumber q) = q"
| "js_number (JsString q) = q"

datatype exn = Error string

text \<open>
  The value a \<^verbatim>\<open>DECIMAL(36, 18)\<close> column keeps of a number: PostgreSQL rounds to 18
  decimals, a tie away from zero.
\<close>

definition decimal18 :: "rat \<Rightarrow> rat" where
  "decimal18 q = sgn q * of_int \<lfloor>\<bar>q\<bar> * 10 ^ 18 + 1 / 2\<rfloor> / 10 ^ 18"

subsection \<open>Tables\<close>

record market =
  m_market_id :: string
  m_name :: string
  m_loan_asset :: string
  m_apr_cap :: js_value

record vault =
  v_id :: nat
  v_name :: string

record vault_allocation =
  va_vault_id :: nat
  va_market_id :: string
  va_supply_assets :: rat

datatype position_status = Active | Closed

record borrower_position =
  bp_id :: nat
  bp_market_id :: string
  bp_current_debt :: rat
  bp_status :: position_status
  bp_updated_at :: instant

record interest_snapshot =
  is_position_id :: nat
  is_snapshot_date :: day
  is_current_rate :: rat
  is_capped_rate :: rat
  is_interest_accrued :: rat
  is_interest_above_cap :: rat

record vault_supply_snapshot =
  vs_vault_id :: nat
  vs_market_id :: string
  vs_snapshot_date :: day
  vs_supply_amount :: rat
  vs_supply_apy :: rat
  vs_capped_apy :: rat
  vs_interest_earned :: rat
  vs_interest_above_cap :: rat
  vs_loan_asset :: string

datatype reimbursement_status = Pending | Completed | Failed

record reimbursement =
  r_id :: nat
  r_position_id :: nat
  r_amount :: rat
  r_period_start :: day
  r_period_end :: day
  r_status :: reimbursement_status
  r_tx_hash :: "string option"
  r_created_at :: instant
  r_processed_at :: "instant option"

text \<open>
  The lines the two snapshot services write to the console, by their content. The
  summary tables printed after a run and the console output of
  \<^verbatim>\<open>reimbursementService.ts\<close> are not modelled.
\<close>

datatype console_line =
    Log_found_positions nat
  | Log_no_active_positions
  | Warn_no_market_data nat string
  | Log_reimbursement_created nat rat
  | Error_processing_position nat string
  | Log_processed nat nat
  | Log_created_reimbursements nat
  | Log_found_allocations nat
  | Log_no_allocations
  | Warn_no_market_data_for string string
  | Log_allocation string string rat rat
  | Error_processing_allocation string string string
  | Log_processed_allocations nat nat

text \<open>
  The store, the console and the clock of the Node process. \<open>reimbursements_id_seq\<close>
  is the next value of the \<^verbatim>\<open>SERIAL\<close> key of \<^verbatim>\<open>reimbursements\<close>; \<open>js_clock\<close> is
  the instant that \<^verbatim>\<open>new Date()\<close> returns.
\<close>

record world =
  markets :: "market list"
  vaults :: "vault list"
  vault_allocations :: "vault_allocation list"
  borrower_positions :: "borrower_position list"
  interest_snapshots :: "interest_snapshot list"
  vault_supply_snapshots :: "vault_supply_snapshot list"
  reimbursements :: "reimbursement list"
  reimbursements_id_seq :: nat
  console :: "console_line list"
  js_clock :: instant

subsection \<open>The rate source (\<^verbatim>\<open>MorphoService.getMarketState\<close>)\<close>

record market_state =
  borrowApy :: rat
  supplyApy :: rat

text \<open>
  The answer of the GraphQL endpoint for one market: \<^verbatim>\<open>data.errors\<close> set, no
  \<^verbatim>\<open>marketByUniqueKey\<close>, or the market object with its (possibly null) \<^verbatim>\<open>state\<close>.
\<close>

datatype api_response =
    Graphql_errors string
  | No_market
  | Market "market_state option"

type_synonym rate_source = "string \<Rightarrow> api_response"

definition getMarketState :: "rate_source \<Rightarrow> string \<Rightarrow> exn + market_state option" where
  "getMarketState api marketId =
     (case api marketId of
        Graphql_errors msg \<Rightarrow> Inl (Error (''GraphQL error: '' @ msg))
      | No_market \<Rightarrow> Inl (Error (''No market data for marketId: '' @ marketId))
      | Market st \<Rightarrow> Inr st)"

subsection \<open>\<^verbatim>\<open>InterestService\<close>\<close>

definition has_market :: "world \<Rightarrow> string \<Rightarrow> bool" where
  "has_market w marketId = (\<exists>m \<in> set (markets w). m_market_id m = marketId)"

definition getActivePositions :: "world \<Rightarrow> borrower_position list" where
  "getActivePositions w =
     sort_key bp_id
       [bp \<leftarrow> borrower_positions w. has_market w (bp_market_id bp) \<and> bp_status bp = Active]"

definition getCappedRate :: "world \<Rightarrow> string \<Rightarrow> js_value" where
  "getCappedRate w marketId =
     (case find (\<lambda>m. m_market_id m = marketId) (markets w) of
        None \<Rightarrow> JsNumber (15 / 100)
      | Some m \<Rightarrow> if js_truthy (m_apr_cap m) then m_apr_cap m else JsNumber (15 / 100))"

definition saveInterestSnapshot :: "interest_snapshot \<Rightarrow> world \<Rightarrow> world" where
  "saveInterestSnapshot data w = w\<lparr>interest_snapshots := interest_snapshots w @ [data]\<rparr>"

text \<open>
  \<^verbatim>\<open>INSERT INTO reimbursements (position_id, amount, period_start, period_end, status)
  VALUES ($1, $2, CURRENT_DATE - INTERVAL '1 day', CURRENT_DATE, 'pending')\<close>: the column
  \<^verbatim>\<open>amount DECIMAL(36, 18)\<close> rounds the number it is given, the period and the default
  of \<^verbatim>\<open>created_at\<close> come from the clock of the database.
\<close>

definition createReimbursement :: "instant \<Rightarrow> nat \<Rightarrow> rat \<Rightarrow> world \<Rightarrow> world" where
  "createReimbursement now positionId amount w =
     w\<lparr>reimbursements := reimbursements w @
          [\<lparr>r_id = reimbursements_id_seq w, r_position_id = positionId,
            r_amount = decimal18 amount,
            r_period_start = date_of now - 1, r_period_end = date_of now,
            r_status = Pending, r_tx_hash = None, r_created_at = now,
            r_processed_at = None\<rparr>],
       reimbursements_id_seq := Suc (reimbursements_id_seq w)\<rparr>"

definition updatePositionDebt :: "instant \<Rightarrow> nat \<Rightarrow> rat \<Rightarrow> world \<Rightarrow> world" where
  "updatePositionDebt now positionId newDebt w =
     w\<lparr>borrower_positions :=
          map (\<lambda>bp. if bp_id bp = positionId
                     then bp\<lparr>bp_current_debt := newDebt, bp_updated_at := now\<rparr> else bp)
              (borrower_positions w)\<rparr>"

definition checkRecentReimbursement :: "instant \<Rightarrow> nat \<Rightarrow> world \<Rightarrow> bool" where
  "checkRecentReimbursement now positionId w =
     (length [r \<leftarrow> reimbursements w.
                r_position_id r = positionId \<and> date_of (r_created_at r) = date_of now] > 0)"

definition console_add :: "console_line \<Rightarrow> world \<Rightarrow> world" where
  "console_add l w = w\<lparr>console := console w @ [l]\<rparr>"

text \<open>
  \<^verbatim>\<open>processPosition\<close> reads both clocks: \<^verbatim>\<open>snapshot_date: new Date()\<close> is the day of the
  Node clock, \<^verbatim>\<open>createReimbursement\<close>, \<^verbatim>\<open>updatePositionDebt\<close> and
  \<^verbatim>\<open>checkRecentReimbursement\<close> read the clock of the database (\<open>now\<close>).
\<close>

definition processPosition ::
  "rate_source \<Rightarrow> instant \<Rightarrow> borrower_position \<Rightarrow> world \<Rightarrow> exn + world" where
  "processPosition api now position w =
     (case getMarketState api (bp_market_id position) of
        Inl e \<Rightarrow> Inl e
      | Inr None \<Rightarrow>
          Inr (console_add (Warn_no_market_data (bp_id position) (bp_market_id position)) w)
      | Inr (Some state) \<Rightarrow>
          (let currentBorrowApy = borrowApy state;
               cappedRate = getCappedRate w (bp_market_id position);
               dailyRate = currentBorrowApy / 365;
               interestAccrued = bp_current_debt position * dailyRate;
               cappedDailyRate = js_number cappedRate / 365;
               cappedInterest = bp_current_debt position * cappedDailyRate;
               interestAboveCap = max 0 (interestAccrued - cappedInterest);
               w1 = saveInterestSnapshot
                      \<lparr>is_position_id = bp_id position,
                       is_snapshot_date = date_of (js_clock w),
                       is_current_rate = currentBorrowApy,
                       is_capped_rate = js_number cappedRate,
                       is_interest_accrued = interestAccrued,
                       is_interest_above_cap = interestAboveCap\<rparr> w;
               w2 = (if interestAboveCap > 0
                     then console_add (Log_reimbursement_created (bp_id position) interestAboveCap)
                            (createReimbursement now (bp_id position) interestAboveCap w1)
                     else w1);
               newDebt = bp_current_debt position + interestAccrued
           in Inr (updatePositionDebt now (bp_id position) newDebt w2)))"

text \<open>
  The loop of \<^verbatim>\<open>processDailySnapshot\<close> over the positions read at its start; the
  accumulator carries the world, \<^verbatim>\<open>processedCount\<close> and \<^verbatim>\<open>reimbursementsCreated\<close>.
  The \<^verbatim>\<open>catch\<close> of the loop body logs the error and goes on with the next position.
\<close>

fun processPositions ::
  "rate_source \<Rightarrow> instant \<Rightarrow> borrower_position list \<Rightarrow> world \<times> nat \<times> nat
     \<Rightarrow> world \<times> nat \<times> nat" where
  "processPositions api now [] acc = acc"
| "processPositions api now (position # rest) (w, processedCount, reimbursementsCreated) =
     (case processPosition api now position w of
        Inr w' \<Rightarrow>
          processPositions api now rest
            (w', processedCount + 1,
             if checkRecentReimbursement now (bp_id position) w'
             then reimbursementsCreated + 1 else reimbursementsCreated)
      | Inl (Error message) \<Rightarrow>
          processPositions api now rest
            (console_add (Error_processing_position (bp_id position) message) w,
             processedCount, reimbursementsCreated))"

definition processDailySnapshot :: "rate_source \<Rightarrow> instant \<Rightarrow> world \<Rightarrow> exn + world" where
  "processDailySnapshot api now w =
     (let positions = getActivePositions w;
          w0 = console_add (Log_found_positions (length positions)) w
      in if length positions = 0 then Inr (console_add Log_no_active_positions w0)
         else (case processPositions api now positions (w0, 0, 0) of
                 (w', processedCount, reimbursementsCreated) \<Rightarrow>
                   Inr (console_add (Log_created_reimbursements reimbursementsCreated)
                          (console_add (Log_processed processedCount (length positions)) w'))))"

subsection \<open>\<^verbatim>\<open>VaultSupplyService\<close>\<close>

text \<open>A row of \<^verbatim>\<open>getActiveVaultAllocations\<close>: an allocation joined with its vault and market.\<close>

record allocation_row =
  ar_vault_id :: nat
  ar_market_id :: string
  ar_supply_assets :: rat
  ar_vault_name :: string
  ar_market_name :: string
  ar_apr_cap :: js_value
  ar_loan_asset :: string

definition getActiveVaultAllocations :: "world \<Rightarrow> allocation_row list" where
  "getActiveVaultAllocations w =
     sort_key (\<lambda>a. (ar_vault_name a, ar_market_name a))
       [\<lparr>ar_vault_id = va_vault_id va, ar_market_id = va_market_id va,
         ar_supply_assets = va_supply_assets va, ar_vault_name = v_name v,
         ar_market_name = m_name m, ar_apr_cap = m_apr_cap m,
         ar_loan_asset = m_loan_asset m\<rparr>.
        va \<leftarrow> vault_allocations w, v \<leftarrow> vaults w, v_id v = va_vault_id va,
        m \<leftarrow> markets w, m_market_id m = va_market_id va, va_supply_assets va > 0]"

definition vs_conflict :: "vault_supply_snapshot \<Rightarrow> vault_supply_snapshot \<Rightarrow> bool" where
  "vs_conflict data s \<longleftrightarrow>
     vs_vault_id s = vs_vault_id data \<and> vs_market_id s = vs_market_id data \<and>
     vs_snapshot_date s = vs_snapshot_date data"

text \<open>\<^verbatim>\<open>INSERT ... ON CONFLICT (vault_id, market_id, snapshot_date) DO UPDATE SET ...\<close>\<close>

definition saveSupplySnapshot :: "vault_supply_snapshot \<Rightarrow> world \<Rightarrow> world" where
  "saveSupplySnapshot data w =
     (if \<exists>s \<in> set (vault_supply_snapshots w). vs_conflict data s
      then w\<lparr>vault_supply_snapshots :=
               map (\<lambda>s. if vs_conflict data s
                         then s\<lparr>vs_supply_amount := vs_supply_amount data,
                                vs_supply_apy := vs_supply_apy data,
                                vs_capped_apy := vs_capped_apy data,
                                vs_interest_earned := vs_interest_earned data,
                                vs_interest_above_cap := vs_interest_above_cap data,
                                vs_loan_asset := vs_loan_asset data\<rparr>
                         else s)
                   (vault_supply_snapshots w)\<rparr>
      else w\<lparr>vault_supply_snapshots := vault_supply_snapshots w @ [data]\<rparr>)"

definition processAllocation ::
  "rate_source \<Rightarrow> allocation_row \<Rightarrow> world \<Rightarrow> exn + world" where
  "processAllocation api allocation w =
     (case getMarketState api (ar_market_id allocation) of
        Inl e \<Rightarrow> Inl e
      | Inr None \<Rightarrow>
          Inr (console_add
                 (Warn_no_market_data_for (ar_market_name allocation) (ar_vault_name allocation)) w)
      | Inr (Some state) \<Rightarrow>
          (let currentSupplyApy = supplyApy state;
               cappedApy = js_number (ar_apr_cap allocation);
               supplyAmount = ar_supply_assets allocation;
               dailyRate = currentSupplyApy / 365;
               interestEarned = supplyAmount * dailyRate;
               cappedDailyRate = cappedApy / 365;
               cappedInterest = supplyAmount * cappedDailyRate;
               interestAboveCap = max 0 (interestEarned - cappedInterest);
               w1 = saveSupplySnapshot
                      \<lparr>vs_vault_id = ar_vault_id allocation,
                       vs_market_id = ar_market_id allocation,
                       vs_snapshot_date = date_of (js_clock w),
                       vs_supply_amount = supplyAmount,
                       vs_supply_apy = currentSupplyApy, vs_capped_apy = cappedApy,
                       vs_interest_earned = interestEarned,
                       vs_interest_above_cap = interestAboveCap,
                       vs_loan_asset = ar_loan_asset allocation\<rparr> w
           in Inr (console_add
                     (Log_allocation (ar_vault_name allocation) (ar_market_name allocation)
                        interestEarned interestAboveCap) w1)))"

fun processAllocations ::
  "rate_source \<Rightarrow> allocation_row list \<Rightarrow> world \<times> nat \<Rightarrow> world \<times> nat" where
  "processAllocations api [] acc = acc"
| "processAllocations api (allocation # rest) (w, processedCount) =
     (case processAllocation api allocation w of
        Inr w' \<Rightarrow> processAllocations api rest (w', processedCount + 1)
      | Inl (Error message) \<Rightarrow>
          processAllocations api rest
            (console_add
               (Error_processing_allocation (ar_vault_name allocation)
                  (ar_market_name allocation) message) w,
             processedCount))"

definition processDailySupplySnapshots ::
  "rate_source \<Rightarrow> world \<Rightarrow> exn + world" where
  "processDailySupplySnapshots api w =
     (let allocations = getActiveVaultAllocations w;
          w0 = console_add (Log_found_allocations (length allocations)) w
      in if length allocations = 0 then Inr (console_add Log_no_allocations w0)
         else (case processAllocations api allocations (w0, 0) of
                 (w', processedCount) \<Rightarrow>
                   Inr (console_add
                          (Log_processed_allocations processedCount (length allocations)) w')))"

subsection \<open>\<^verbatim>\<open>ReimbursementService\<close>: creating entries\<close>

text \<open>
  The rows of the first query of \<^verbatim>\<open>createReimbursementEntries\<close>. Of each row the loop
  reads \<^verbatim>\<open>position_id\<close>, \<^verbatim>\<open>interest_above_cap\<close> and \<^verbatim>\<open>snapshot_date\<close>, the columns
  of the snapshot; the two \<^verbatim>\<open>LEFT JOIN\<close>s only add a name for the console.
\<close>

definition positionsNeedingReimbursement :: "world \<Rightarrow> instant \<Rightarrow> interest_snapshot list" where
  "positionsNeedingReimbursement w date =
     [i \<leftarrow> interest_snapshots w.
        (\<exists>bp \<in> set (borrower_positions w).
            bp_id bp = is_position_id i \<and> has_market w (bp_market_id bp) \<and>
            bp_status bp = Active) \<and>
        is_snapshot_date i = date_of date \<and> is_interest_above_cap i > 0]"

definition existingReimbursements :: "world \<Rightarrow> nat \<Rightarrow> day \<Rightarrow> reimbursement list" where
  "existingReimbursements w positionId d =
     [r \<leftarrow> reimbursements w.
        r_position_id r = positionId \<and> r_period_start r = d \<and> r_period_end r = d]"

text \<open>
  The row that the loop inserts. Its amount is the cell \<^verbatim>\<open>interest_above_cap\<close> of the
  snapshot as the query has read it, a \<^verbatim>\<open>DECIMAL(36, 18)\<close> value written to a
  \<^verbatim>\<open>DECIMAL(36, 18)\<close> column, which keeps it as it is.
\<close>

definition insertReimbursementEntry :: "instant \<Rightarrow> interest_snapshot \<Rightarrow> world \<Rightarrow> world" where
  "insertReimbursementEntry now position w =
     w\<lparr>reimbursements := reimbursements w @
          [\<lparr>r_id = reimbursements_id_seq w, r_position_id = is_position_id position,
            r_amount = is_interest_above_cap position,
            r_period_start = is_snapshot_date position,
            r_period_end = is_snapshot_date position,
            r_status = Pending, r_tx_hash = None, r_created_at = now,
            r_processed_at = None\<rparr>],
       reimbursements_id_seq := Suc (reimbursements_id_seq w)\<rparr>"

fun createEntries ::
  "instant \<Rightarrow> interest_snapshot list \<Rightarrow> world \<times> nat \<Rightarrow> world \<times> nat" where
  "createEntries now [] acc = acc"
| "createEntries now (position # rest) (w, createdCount) =
     (let existing =
            existingReimbursements w (is_position_id position) (is_snapshot_date position)
      in if length existing > 0 then createEntries now rest (w, createdCount)
         else createEntries now rest
                (insertReimbursementEntry now position w, createdCount + 1))"

definition createReimbursementEntries :: "instant \<Rightarrow> instant \<Rightarrow> world \<Rightarrow> world \<times> nat" where
  "createReimbursementEntries date now w =
     createEntries now (positionsNeedingReimbursement w date) (w, 0)"

subsection \<open>\<^verbatim>\<open>ReimbursementService\<close>: processing and retrying\<close>

text \<open>
  \<^verbatim>\<open>Math.random()\<close> is a stream read through a cursor: \<open>random k\<close> is the value of
  the \<open>k\<close>-th call, a number in \<open>[0, 1)\<close>. \<^verbatim>\<open>simulatePayment\<close> does not read its
  arguments (recipient and amount); it returns the reference or throws, and the cursor
  after its calls.
\<close>

type_synonym random_source = "nat \<Rightarrow> rat"

definition hex_digit :: "nat \<Rightarrow> char" where
  "hex_digit n = ''0123456789abcdef'' ! n"

definition simulatePayment :: "random_source \<Rightarrow> nat \<Rightarrow> (exn + string) \<times> nat" where
  "simulatePayment random k =
     (if random k < 95 / 100
      then (Inr (''0x'' @ map (\<lambda>j. hex_digit (nat \<lfloor>random (k + 1 + j) * 16\<rfloor>)) [0..<64]),
            k + 65)
      else (Inl (Error ''Simulated payment failure''), k + 1))"

record process_result =
  processed :: nat
  failed :: nat
  totalAmount :: rat

definition joins_position :: "world \<Rightarrow> reimbursement \<Rightarrow> bool" where
  "joins_position w r \<longleftrightarrow>
     (\<exists>bp \<in> set (borrower_positions w).
         bp_id bp = r_position_id r \<and> has_market w (bp_market_id bp))"

definition pendingReimbursements :: "world \<Rightarrow> nat \<Rightarrow> reimbursement list" where
  "pendingReimbursements w limit =
     take limit
       (sort_key r_created_at
          [r \<leftarrow> reimbursements w. joins_position w r \<and> r_status r = Pending])"

definition markCompleted :: "instant \<Rightarrow> string \<Rightarrow> nat \<Rightarrow> world \<Rightarrow> world" where
  "markCompleted now txHash rid w =
     w\<lparr>reimbursements :=
          map (\<lambda>r. if r_id r = rid
                    then r\<lparr>r_status := Completed, r_tx_hash := Some txHash,
                           r_processed_at := Some now\<rparr>
                    else r)
              (reimbursements w)\<rparr>"

definition markFailed :: "instant \<Rightarrow> nat \<Rightarrow> world \<Rightarrow> world" where
  "markFailed now rid w =
     w\<lparr>reimbursements :=
          map (\<lambda>r. if r_id r = rid
                    then r\<lparr>r_status := Failed, r_processed_at := Some now\<rparr>
                    else r)
              (reimbursements w)\<rparr>"

fun processReimbursements ::
  "random_source \<Rightarrow> instant \<Rightarrow> reimbursement list \<Rightarrow> world \<times> nat \<times> process_result
     \<Rightarrow> world \<times> nat \<times> process_result" where
  "processReimbursements random now [] acc = acc"
| "processReimbursements random now (reimbursement # rest) (w, k, res) =
     (case simulatePayment random k of
        (Inr txHash, k') \<Rightarrow>
          processReimbursements random now rest
            (markCompleted now txHash (r_id reimbursement) w, k',
             res\<lparr>processed := processed res + 1,
                 totalAmount := totalAmount res + r_amount reimbursement\<rparr>)
      | (Inl e, k') \<Rightarrow>
          processReimbursements random now rest
            (markFailed now (r_id reimbursement) w, k', res\<lparr>failed := failed res + 1\<rparr>))"

text \<open>
  PostgreSQL refuses a negative \<^verbatim>\<open>LIMIT\<close>; the method rolls back and rethrows. The
  result carries the world, the cursor of the random stream and the returned summary.
\<close>

definition processPendingReimbursements ::
  "random_source \<Rightarrow> nat \<Rightarrow> int \<Rightarrow> instant \<Rightarrow> world
     \<Rightarrow> exn + (world \<times> nat \<times> process_result)" where
  "processPendingReimbursements random k limit now w =
     (if limit < 0 then Inl (Error ''LIMIT must not be negative'')
      else Inr (processReimbursements random now (pendingReimbursements w (nat limit))
                  (w, k, \<lparr>processed = 0, failed = 0, totalAmount = 0\<rparr>)))"

definition failedToRetry :: "world \<Rightarrow> nat \<Rightarrow> nat list" where
  "failedToRetry w limit =
     map r_id
       (take limit
          (sort_key (\<lambda>r. - r_created_at r) [r \<leftarrow> reimbursements w. r_status r = Failed]))"

definition retryFailedReimbursements :: "int \<Rightarrow> world \<Rightarrow> exn + (world \<times> nat)" where
  "retryFailedReimbursements limit w =
     (if limit < 0 then Inl (Error ''LIMIT must not be negative'')
      else (let ids = failedToRetry w (nat limit);
                hit = (\<lambda>r. r_status r = Failed \<and> r_id r \<in> set ids)
            in Inr (w\<lparr>reimbursements :=
                        map (\<lambda>r. if hit r
                                  then r\<lparr>r_status := Pending, r_tx_hash := None,
                                         r_processed_at := None\<rparr>
                                  else r)
                            (reimbursements w)\<rparr>,
                    length (filter hit (reimbursements w)))))"

subsection \<open>Abbreviations used in the statements\<close>

text \<open>
  The snapshot row that \<^verbatim>\<open>processPosition\<close> saves for a position whose market has a
  state (lemma \<open>processPosition_state\<close> proves that it is this row).
\<close>

definition position_snapshot ::
  "world \<Rightarrow> borrower_position \<Rightarrow> market_state \<Rightarrow> interest_snapshot" where
  "position_snapshot w p st =
     \<lparr>is_position_id = bp_id p, is_snapshot_date = date_of (js_clock w),
      is_current_rate = borrowApy st,
      is_capped_rate = js_number (getCappedRate w (bp_market_id p)),
      is_interest_accrued = bp_current_debt p * (borrowApy st / 365),
      is_interest_above_cap =
        max 0 (bp_current_debt p * (borrowApy st / 365)
               - bp_current_debt p * (js_number (getCappedRate w (bp_market_id p)) / 365))\<rparr>"

text \<open>The row of \<^verbatim>\<open>reimbursements\<close> that \<^verbatim>\<open>createReimbursement\<close> inserts.\<close>

definition inline_reimbursement :: "world \<Rightarrow> instant \<Rightarrow> nat \<Rightarrow> rat \<Rightarrow> reimbursement" where
  "inline_reimbursement w now positionId amount =
     \<lparr>r_id = reimbursements_id_seq w, r_position_id = positionId,
      r_amount = decimal18 amount,
      r_period_start = date_of now - 1, r_period_end = date_of now,
      r_status = Pending, r_tx_hash = None, r_created_at = now, r_processed_at = None\<rparr>"

text \<open>The row that \<^verbatim>\<open>createReimbursementEntries\<close> inserts for a snapshot.\<close>

definition entry_reimbursement :: "world \<Rightarrow> instant \<Rightarrow> interest_snapshot \<Rightarrow> reimbursement" where
  "entry_reimbursement w now i =
     \<lparr>r_id = reimbursements_id_seq w, r_position_id = is_position_id i,
      r_amount = is_interest_above_cap i, r_period_start = is_snapshot_date i,
      r_period_end = is_snapshot_date i, r_status = Pending, r_tx_hash = None,
      r_created_at = now, r_processed_at = None\<rparr>"

text \<open>
  The snapshot row that \<^verbatim>\<open>processAllocation\<close> hands to \<^verbatim>\<open>saveSupplySnapshot\<close> for an
  allocation whose market has a state.
\<close>

definition allocation_snapshot ::
  "world \<Rightarrow> allocation_row \<Rightarrow> market_state \<Rightarrow> vault_supply_snapshot" where
  "allocation_snapshot w a st =
     \<lparr>vs_vault_id = ar_vault_id a, vs_market_id = ar_market_id a,
      vs_snapshot_date = date_of (js_clock w), vs_supply_amount = ar_supply_assets a,
      vs_supply_apy = supplyApy st, vs_capped_apy = js_number (ar_apr_cap a),
      vs_interest_earned = ar_supply_assets a * (supplyApy st / 365),
      vs_interest_above_cap =
        max 0 (ar_supply_assets a * (supplyApy st / 365)
               - ar_supply_assets a * (js_number (ar_apr_cap a) / 365)),
      vs_loan_asset = ar_loan_asset a\<rparr>"

text \<open>The key of the unique constraint of \<^verbatim>\<open>vault_supply_snapshots\<close>.\<close>

definition vs_key :: "vault_supply_snapshot \<Rightarrow> nat \<times> string \<times> day" where
  "vs_key s = (vs_vault_id s, vs_market_id s, vs_snapshot_date s)"

text \<open>
  The outcomes of \<open>n\<close> successive calls of \<^verbatim>\<open>simulatePayment\<close> from the cursor \<open>k\<close>, and
  the row of a reimbursement after a payment with a given outcome (the two
  \<^verbatim>\<open>UPDATE\<close>s of \<^verbatim>\<open>processPendingReimbursements\<close>).
\<close>

fun payment_outcomes :: "random_source \<Rightarrow> nat \<Rightarrow> nat \<Rightarrow> (exn + string) list" where
  "payment_outcomes random k 0 = []"
| "payment_outcomes random k (Suc n) =
     fst (simulatePayment random k) # payment_outcomes random (snd (simulatePayment random k)) n"

fun settled :: "instant \<Rightarrow> exn + string \<Rightarrow> reimbursement \<Rightarrow> reimbursement" where
  "settled now (Inr txHash) r =
     r\<lparr>r_status := Completed, r_tx_hash := Some txHash, r_processed_at := Some now\<rparr>"
| "settled now (Inl e) r = r\<lparr>r_status := Failed, r_processed_at := Some now\<rparr>"

fun counted :: "exn + string \<Rightarrow> reimbursement \<Rightarrow> process_result \<Rightarrow> process_result" where
  "counted (Inr txHash) r res =
     res\<lparr>processed := processed res + 1, totalAmount := totalAmount res + r_amount r\<rparr>"
| "counted (Inl e) r res = res\<lparr>failed := failed res + 1\<rparr>"

subsection \<open>Small stores for concrete runs\<close>

definition demo_market :: market where
  "demo_market =
     \<lparr>m_market_id = ''m1'', m_name = ''wstETH/WETH'', m_loan_asset = ''WETH'',
      m_apr_cap = JsString (12 / 100)\<rparr>"

definition demo_position :: borrower_position where
  "demo_position =
     \<lparr>bp_id = 1, bp_market_id = ''m1'', bp_current_debt = 1000, bp_status = Active,
      bp_updated_at = 0\<rparr>"

definition demo_allocation :: allocation_row where
  "demo_allocation =
     \<lparr>ar_vault_id = 1, ar_market_id = ''m1'', ar_supply_assets = 1000,
      ar_vault_name = ''Compound WETH'', ar_market_name = ''wstETH/WETH'',
      ar_apr_cap = JsString (12 / 100), ar_loan_asset = ''WETH''\<rparr>"

definition demo_world :: world where
  "demo_world =
     \<lparr>markets = [demo_market],
      vaults = [\<lparr>v_id = 1, v_name = ''Compound WETH''\<rparr>],
      vault_allocations =
        [\<lparr>va_vault_id = 1, va_market_id = ''m1'', va_supply_assets = 1000\<rparr>],
      borrower_positions = [demo_position],
      interest_snapshots = [], vault_supply_snapshots = [], reimbursements = [],
      reimbursements_id_seq = 1, console = [], js_clock = 0\<rparr>"

definition demo_state :: market_state where
  "demo_state = \<lparr>borrowApy = 18 / 100, supplyApy = 18 / 100\<rparr>"

definition demo_api :: rate_source where
  "demo_api marketId = (if marketId = ''m1'' then Market (Some demo_state) else No_market)"


definition demo_market_of :: "string \<Rightarrow> market" where
  "demo_market_of marketId = demo_market\<lparr>m_market_id := marketId\<rparr>"

definition demo_position_of :: "nat \<Rightarrow> string \<Rightarrow> borrower_position" where
  "demo_position_of n marketId = demo_position\<lparr>bp_id := n, bp_market_id := marketId\<rparr>"

text \<open>Three positions in three markets; the rate source does not know the third market.\<close>

definition demo_world3 :: world where
  "demo_world3 =
     demo_world\<lparr>markets := [demo_market_of ''m1'', demo_market_of ''m2'', demo_market_of ''m3''],
       borrower_positions :=
         [demo_position_of 1 ''m1'', demo_position_of 2 ''m2'', demo_position_of 3 ''m3'']\<rparr>"

definition demo_api3 :: rate_source where
  "demo_api3 marketId = (if marketId = ''m3'' then No_market else Market (Some demo_state))"

text \<open>The demo store with the snapshot of day 0 of its position.\<close>

definition demo_snapshot :: interest_snapshot where
  "demo_snapshot =
     \<lparr>is_position_id = 1, is_snapshot_date = 0, is_current_rate = 18 / 100,
      is_capped_rate = 12 / 100, is_interest_accrued = 36 / 73,
      is_interest_above_cap = 12 / 73\<rparr>"

definition demo_world_snapshot :: world where
  "demo_world_snapshot = demo_world\<lparr>interest_snapshots := [demo_snapshot]\<rparr>"

text \<open>The demo store after the daily run of day 0, both clocks at the instant 0.\<close>

definition demo_world_after_run :: world where
  "demo_world_after_run =
     demo_world
       \<lparr>borrower_positions := [demo_position\<lparr>bp_current_debt := 1000 + 36 / 73\<rparr>],
        interest_snapshots := [demo_snapshot],
        reimbursements :=
          [\<lparr>r_id = 1, r_position_id = 1, r_amount = decimal18 (12 / 73),
            r_period_start = - 1, r_period_end = 0, r_status = Pending, r_tx_hash = None,
            r_created_at = 0, r_processed_at = None\<rparr>],
        reimbursements_id_seq := 2,
        console := [Log_found_positions 1, Log_reimbursement_created 1 (12 / 73),
                    Log_processed 1 1, Log_created_reimbursements 1]\<rparr>"

text \<open>The demo store with a debt of \<open>1 / 10 ^ 15\<close> instead of \<open>1000\<close>.\<close>

definition demo_world_dust :: world where
  "demo_world_dust =
     demo_world\<lparr>borrower_positions := [demo_position\<lparr>bp_current_debt := 1 / 10 ^ 15\<rparr>]\<rparr>"

text \<open>
  Two failed reimbursements: the first was created earlier and failed later than the
  second.
\<close>

definition demo_failed :: "nat \<Rightarrow> instant \<Rightarrow> instant \<Rightarrow> reimbursement" where
  "demo_failed n created failed_at =
     \<lparr>r_id = n, r_position_id = 1, r_amount = 12 / 73, r_period_start = 0,
      r_period_end = 0, r_status = Failed, r_tx_hash = None, r_created_at = created,
      r_processed_at = Some failed_at\<rparr>"

definition demo_world_failed :: world where
  "demo_world_failed =
     demo_world\<lparr>reimbursements := [demo_failed 1 1 10, demo_failed 2 2 5],
       reimbursements_id_seq := 3\<rparr>"

text \<open>
  Twelve pending reimbursements of the demo position, created at the instants 1 to 12,
  and a random stream whose draws are all 0.5 but the first draw of the seventh payment.
\<close>

definition demo_pending :: "nat \<Rightarrow> reimbursement" where
  "demo_pending n =
     \<lparr>r_id = n, r_position_id = 1, r_amount = 1, r_period_start = 0, r_period_end = 0,
      r_status = Pending, r_tx_hash = None, r_created_at = int n, r_processed_at = None\<rparr>"

definition demo_world_pending :: world where
  "demo_world_pending =
     demo_world\<lparr>reimbursements := map demo_pending [1..<13], reimbursements_id_seq := 13\<rparr>"

definition demo_random :: random_source where
  "demo_random k = (if k = 390 then 99 / 100 else 1 / 2)"

section \<open>Properties\<close>

lemmas demo_defs =
  demo_market_def demo_position_def demo_allocation_def demo_world_def demo_state_def
  demo_api_def

subsection \<open>What one position and one allocation write\<close>

lemma getCappedRate_found:
  "find (\<lambda>m. m_market_id m = marketId) (markets w) = Some m \<Longrightarrow> js_truthy (m_apr_cap m)
   \<Longrightarrow> getCappedRate w marketId = m_apr_cap m"
  by (simp add: getCappedRate_def)

lemma above_cap_formula: "p * (r / 365) - p * (c / 365) = p * (r - c) / (365::rat)"
  by (simp add: field_simps)

lemma interest_snapshots_processPosition:
  assumes "api (bp_market_id p) = Market (Some st)"
  shows "\<exists>w'. processPosition api now p w = Inr w' \<and>
     interest_snapshots w' = interest_snapshots w @
       [\<lparr>is_position_id = bp_id p, is_snapshot_date = date_of (js_clock w),
         is_current_rate = borrowApy st,
         is_capped_rate = js_number (getCappedRate w (bp_market_id p)),
         is_interest_accrued = bp_current_debt p * (borrowApy st / 365),
         is_interest_above_cap =
           max 0 (bp_current_debt p * (borrowApy st / 365)
                  - bp_current_debt p * (js_number (getCappedRate w (bp_market_id p)) / 365))\<rparr>]"
  using assms
  by (simp add: processPosition_def getMarketState_def Let_def saveInterestSnapshot_def
      createReimbursement_def updatePositionDebt_def console_add_def)





subsection \<open>The daily interest of a position and of an allocation\<close>





lemma processPosition_throws:
  "getMarketState api (bp_market_id p) = Inl e \<Longrightarrow> processPosition api now p w = Inl e"
  by (simp add: processPosition_def)

lemma processPosition_no_state:
  "api (bp_market_id p) = Market None \<Longrightarrow>
   processPosition api now p w =
     Inr (console_add (Warn_no_market_data (bp_id p) (bp_market_id p)) w)"
  by (simp add: processPosition_def getMarketState_def)

lemma processPosition_state:
  assumes "api (bp_market_id p) = Market (Some st)"
  shows "processPosition api now p w =
     Inr (updatePositionDebt now (bp_id p)
            (bp_current_debt p + is_interest_accrued (position_snapshot w p st))
            (if is_interest_above_cap (position_snapshot w p st) > 0
             then console_add
                    (Log_reimbursement_created (bp_id p)
                       (is_interest_above_cap (position_snapshot w p st)))
                    (createReimbursement now (bp_id p)
                       (is_interest_above_cap (position_snapshot w p st))
                       (saveInterestSnapshot (position_snapshot w p st) w))
             else saveInterestSnapshot (position_snapshot w p st) w))"
  using assms
  by (simp add: processPosition_def getMarketState_def Let_def position_snapshot_def)

lemma processPosition_cases:
  obtains (throws) e where "getMarketState api (bp_market_id p) = Inl e"
      "processPosition api now p w = Inl e"
  | (no_state) "api (bp_market_id p) = Market None"
      "processPosition api now p w =
         Inr (console_add (Warn_no_market_data (bp_id p) (bp_market_id p)) w)"
  | (state) st where "api (bp_market_id p) = Market (Some st)"
      "processPosition api now p w =
     Inr (updatePositionDebt now (bp_id p)
            (bp_current_debt p + is_interest_accrued (position_snapshot w p st))
            (if is_interest_above_cap (position_snapshot w p st) > 0
             then console_add
                    (Log_reimbursement_created (bp_id p)
                       (is_interest_above_cap (position_snapshot w p st)))
                    (createReimbursement now (bp_id p)
                       (is_interest_above_cap (position_snapshot w p st))
                       (saveInterestSnapshot (position_snapshot w p st) w))
             else saveInterestSnapshot (position_snapshot w p st) w))"
proof (cases "api (bp_market_id p)")
  case (Graphql_errors msg)
  then have "getMarketState api (bp_market_id p) = Inl (Error (''GraphQL error: '' @ msg))"
    by (simp add: getMarketState_def)
  then show ?thesis using throws processPosition_throws by blast
next
  case No_market
  then have "getMarketState api (bp_market_id p)
     = Inl (Error (''No market data for marketId: '' @ bp_market_id p))"
    by (simp add: getMarketState_def)
  then show ?thesis using throws processPosition_throws by blast
next
  case (Market x)
  show ?thesis
  proof (cases x)
    case None
    with Market show ?thesis using no_state processPosition_no_state by blast
  next
    case (Some st)
    with Market show ?thesis using state processPosition_state by blast
  qed
qed

text \<open>Tables after one position.\<close>

lemma processPosition_tables:
  assumes "processPosition api now p w = Inr w'"
  shows "markets w' = markets w" "vaults w' = vaults w"
    "vault_allocations w' = vault_allocations w"
    "vault_supply_snapshots w' = vault_supply_snapshots w"
  using assms
  by (cases rule: processPosition_cases [of api p now w];
      auto simp add: console_add_def updatePositionDebt_def createReimbursement_def
        saveInterestSnapshot_def split: if_splits)+

lemma processPosition_snapshots:
  assumes "processPosition api now p w = Inr w'"
  shows "interest_snapshots w' = interest_snapshots w \<and> api (bp_market_id p) = Market None \<or>
         (\<exists>st. api (bp_market_id p) = Market (Some st) \<and>
               interest_snapshots w' = interest_snapshots w @ [position_snapshot w p st])"
  using assms
  by (cases rule: processPosition_cases [of api p now w])
     (auto simp add: console_add_def updatePositionDebt_def createReimbursement_def
        saveInterestSnapshot_def split: if_splits)

lemma processPosition_reimbursements:
  assumes "processPosition api now p w = Inr w'"
  shows "reimbursements w' = reimbursements w \<or>
         (\<exists>st. api (bp_market_id p) = Market (Some st) \<and>
               0 < is_interest_above_cap (position_snapshot w p st) \<and>
               reimbursements w' = reimbursements w @
                 [inline_reimbursement w now (bp_id p)
                    (is_interest_above_cap (position_snapshot w p st))])"
  using assms
  by (cases rule: processPosition_cases [of api p now w])
     (auto simp add: console_add_def updatePositionDebt_def createReimbursement_def
        saveInterestSnapshot_def inline_reimbursement_def split: if_splits)

lemma position_snapshot_above_nonneg: "0 \<le> is_interest_above_cap (position_snapshot w p st)"
  by (simp add: position_snapshot_def)

subsection \<open>Markets with a zero or negative cap\<close>




subsection \<open>The loop over the positions\<close>

lemma processPosition_Inl_iff:
  "processPosition api now p w = Inl e \<longleftrightarrow> getMarketState api (bp_market_id p) = Inl e"
  by (cases rule: processPosition_cases [of api p now w]) (auto simp: getMarketState_def)

lemma processPositions_throws:
  assumes "getMarketState api (bp_market_id p) = Inl (Error msg)"
  shows "processPositions api now (p # ps) (w, pc, rc) =
         processPositions api now ps
           (console_add (Error_processing_position (bp_id p) msg) w, pc, rc)"
  using assms processPosition_Inl_iff [of api now p w "Error msg"] by simp

lemma processPositions_ok:
  assumes "processPosition api now p w = Inr w'"
  shows "processPositions api now (p # ps) (w, pc, rc) =
         processPositions api now ps
           (w', pc + 1, if checkRecentReimbursement now (bp_id p) w' then rc + 1 else rc)"
  using assms by simp

lemma processPositions_rel:
  assumes refl: "\<And>w. R w w"
    and trans: "\<And>a b c. R a b \<Longrightarrow> R b c \<Longrightarrow> R a c"
    and step: "\<And>p w w'. processPosition api now p w = Inr w' \<Longrightarrow> R w w'"
    and line: "\<And>w l. R w (console_add l w)"
  shows "R w (fst (processPositions api now ps (w, pc, rc)))"
proof (induction ps arbitrary: w pc rc)
  case Nil
  show ?case by (simp add: refl)
next
  case (Cons p ps)
  show ?case
  proof (cases "processPosition api now p w")
    case (Inl e)
    obtain msg where e: "e = Error msg" by (cases e)
    from Inl e have "getMarketState api (bp_market_id p) = Inl (Error msg)"
      by (simp add: processPosition_Inl_iff)
    from processPositions_throws [OF this]
    show ?thesis using trans [OF line Cons.IH] by simp
  next
    case (Inr w')
    from processPositions_ok [OF Inr]
    show ?thesis using trans [OF step [OF Inr] Cons.IH] by simp
  qed
qed

lemma processPositions_count:
  "fst (snd (processPositions api now ps (w, pc, rc))) =
     pc + length [p \<leftarrow> ps. \<not> isl (getMarketState api (bp_market_id p))]"
proof (induction ps arbitrary: w pc rc)
  case Nil
  show ?case by simp
next
  case (Cons p ps)
  show ?case
  proof (cases "processPosition api now p w")
    case (Inl e)
    obtain msg where e: "e = Error msg" by (cases e)
    from Inl e have g: "getMarketState api (bp_market_id p) = Inl (Error msg)"
      by (simp add: processPosition_Inl_iff)
    show ?thesis unfolding processPositions_throws [OF g] Cons.IH using g by simp
  next
    case (Inr w')
    have g: "\<not> isl (getMarketState api (bp_market_id p))"
    proof
      assume "isl (getMarketState api (bp_market_id p))"
      then obtain e where "getMarketState api (bp_market_id p) = Inl e"
        by (cases "getMarketState api (bp_market_id p)") auto
      then have "processPosition api now p w = Inl e" by (simp add: processPosition_Inl_iff)
      with Inr show False by simp
    qed
    show ?thesis unfolding processPositions_ok [OF Inr] Cons.IH using g by simp
  qed
qed

lemma console_add_subset: "set (console w) \<subseteq> set (console (console_add l w))"
  by (auto simp: console_add_def)

lemma processPosition_console:
  "processPosition api now p w = Inr w' \<Longrightarrow> set (console w) \<subseteq> set (console w')"
  by (cases rule: processPosition_cases [of api p now w])
     (auto simp add: console_add_def updatePositionDebt_def createReimbursement_def
        saveInterestSnapshot_def split: if_splits)

lemma processPositions_console_mono:
  "set (console w) \<subseteq> set (console (fst (processPositions api now ps (w, pc, rc))))"
proof (rule processPositions_rel [where R = "\<lambda>a b. set (console a) \<subseteq> set (console b)"])
  show "\<And>p w w'. processPosition api now p w = Inr w' \<Longrightarrow> set (console w) \<subseteq> set (console w')"
    by (rule processPosition_console)
qed (auto simp: console_add_def)

lemma processPositions_error_line:
  assumes "p \<in> set ps" "getMarketState api (bp_market_id p) = Inl (Error msg)"
  shows "Error_processing_position (bp_id p) msg
           \<in> set (console (fst (processPositions api now ps (w, pc, rc))))"
  using assms(1)
proof (induction ps arbitrary: w pc rc)
  case Nil
  then show ?case by simp
next
  case (Cons q ps)
  show ?case
  proof (cases "q = p")
    case True
    have "Error_processing_position (bp_id p) msg
        \<in> set (console (console_add (Error_processing_position (bp_id p) msg) w))"
      by (simp add: console_add_def)
    then show ?thesis
      unfolding True processPositions_throws [OF assms(2)]
      using processPositions_console_mono by blast
  next
    case False
    with Cons.prems have p: "p \<in> set ps" by simp
    show ?thesis
    proof (cases "processPosition api now q w")
      case (Inl e)
      obtain m where e: "e = Error m" by (cases e)
      from Inl e have g: "getMarketState api (bp_market_id q) = Inl (Error m)"
        by (simp add: processPosition_Inl_iff)
      show ?thesis unfolding processPositions_throws [OF g] by (rule Cons.IH [OF p])
    next
      case (Inr w')
      show ?thesis unfolding processPositions_ok [OF Inr] by (rule Cons.IH [OF p])
    qed
  qed
qed

lemma processDailySnapshot_total:
  "\<exists>w'. processDailySnapshot api now w = Inr w'"
  by (simp add: processDailySnapshot_def Let_def split: prod.splits)

lemma processDailySnapshot_nonempty:
  assumes "getActivePositions w \<noteq> []"
  shows "processDailySnapshot api now w =
     Inr (console_add
            (Log_created_reimbursements
               (snd (snd (processPositions api now (getActivePositions w)
                  (console_add (Log_found_positions (length (getActivePositions w))) w, 0, 0)))))
            (console_add
               (Log_processed
                  (fst (snd (processPositions api now (getActivePositions w)
                     (console_add (Log_found_positions (length (getActivePositions w))) w, 0, 0))))
                  (length (getActivePositions w)))
               (fst (processPositions api now (getActivePositions w)
                  (console_add (Log_found_positions (length (getActivePositions w))) w, 0, 0)))))"
  using assms by (simp add: processDailySnapshot_def Let_def split: prod.splits)

lemma length_filter_distinct_key:
  assumes "distinct (map f xs)" "x \<in> set xs"
  shows "length [y \<leftarrow> xs. f y = f x] = 1"
  using assms
proof (induction xs)
  case Nil
  then show ?case by simp
next
  case (Cons a xs)
  show ?case
  proof (cases "a = x")
    case True
    with Cons.prems have "f x \<notin> f ` set xs" by simp
    then have "\<forall>y \<in> set xs. f y \<noteq> f x" by (metis image_eqI)
    then have "[y \<leftarrow> xs. f y = f x] = []" by (simp add: filter_empty_conv)
    with True show ?thesis by simp
  next
    case False
    with Cons.prems have x: "x \<in> set xs" by simp
    with Cons.prems have "f a \<noteq> f x" by force
    with Cons.IH [OF _ x] Cons.prems show ?thesis by simp
  qed
qed

subsection \<open>A market the rate source does not know\<close>

text \<open>
  Claim C5. Three active positions lie in three markets and the rate source has no
  market for one of them (\<^verbatim>\<open>getMarketState\<close> throws). Then \<^verbatim>\<open>processDailySnapshot\<close>
  returns normally, its summary line reports 2 of 3 positions processed, and the console
  holds the error line of the position in the third market.
\<close>

theorem unknown_market_is_skipped:
  assumes three: "length (getActivePositions w) = 3"
    and markets: "distinct (map bp_market_id (getActivePositions w))"
    and p: "p \<in> set (getActivePositions w)"
    and missing: "api (bp_market_id p) = No_market"
    and others: "\<forall>q \<in> set (getActivePositions w).
                   bp_market_id q \<noteq> bp_market_id p \<longrightarrow> (\<exists>st. api (bp_market_id q) = Market st)"
  shows "\<exists>w'. processDailySnapshot api now w = Inr w' \<and>
           Log_processed 2 3 \<in> set (console w') \<and>
           Error_processing_position (bp_id p)
              (''No market data for marketId: '' @ bp_market_id p) \<in> set (console w')"
proof -
  let ?ps = "getActivePositions w"
  let ?w0 = "console_add (Log_found_positions (length ?ps)) w"
  let ?run = "processPositions api now ?ps (?w0, 0, 0)"
  have ne: "?ps \<noteq> []" using three by auto
  have thrown: "getMarketState api (bp_market_id p)
      = Inl (Error (''No market data for marketId: '' @ bp_market_id p))"
    using missing by (simp add: getMarketState_def)
  have iff: "isl (getMarketState api (bp_market_id q)) \<longleftrightarrow> bp_market_id q = bp_market_id p"
    if "q \<in> set ?ps" for q
  proof (cases "bp_market_id q = bp_market_id p")
    case True
    then show ?thesis using thrown by simp
  next
    case False
    with others that obtain st where "api (bp_market_id q) = Market st" by blast
    then show ?thesis using False by (simp add: getMarketState_def)
  qed
  have "[q \<leftarrow> ?ps. isl (getMarketState api (bp_market_id q))]
      = [q \<leftarrow> ?ps. bp_market_id q = bp_market_id p]"
    by (rule filter_cong) (simp_all add: iff)
  then have "length [q \<leftarrow> ?ps. isl (getMarketState api (bp_market_id q))] = 1"
    using length_filter_distinct_key [OF markets p] by simp
  moreover have "length [q \<leftarrow> ?ps. isl (getMarketState api (bp_market_id q))]
      + length [q \<leftarrow> ?ps. \<not> isl (getMarketState api (bp_market_id q))] = length ?ps"
    by (rule sum_length_filter_compl)
  ultimately have two: "length [q \<leftarrow> ?ps. \<not> isl (getMarketState api (bp_market_id q))] = 2"
    using three by simp
  define run where "run = processPositions api now ?ps (?w0, 0, 0)"
  have count: "fst (snd run) = 2"
    unfolding run_def processPositions_count two by simp
  have line: "Error_processing_position (bp_id p)
      (''No market data for marketId: '' @ bp_market_id p) \<in> set (console (fst run))"
    unfolding run_def by (rule processPositions_error_line [OF p thrown])
  have res: "processDailySnapshot api now w =
      Inr (console_add (Log_created_reimbursements (snd (snd run)))
             (console_add (Log_processed (fst (snd run)) (length ?ps)) (fst run)))"
    unfolding run_def by (rule processDailySnapshot_nonempty [OF ne])
  show ?thesis
    unfolding res count three using line by (simp add: console_add_def)
qed

theorem unknown_market_is_skipped_witness:
  "\<exists>w'. processDailySnapshot demo_api3 0 demo_world3 = Inr w' \<and>
     Log_processed 2 3 \<in> set (console w') \<and>
     Error_processing_position 3 ''No market data for marketId: m3'' \<in> set (console w')"
proof -
  have ps: "getActivePositions demo_world3 =
      [demo_position_of 1 ''m1'', demo_position_of 2 ''m2'', demo_position_of 3 ''m3'']"
    by (simp add: getActivePositions_def has_market_def demo_world3_def demo_world_def
        demo_position_of_def demo_market_of_def demo_position_def demo_market_def)
  show ?thesis
    using unknown_market_is_skipped [of demo_world3 "demo_position_of 3 ''m3''" demo_api3 0]
    unfolding ps
    by (simp add: demo_position_of_def demo_position_def demo_api3_def)
qed

subsection \<open>The loop of \<^verbatim>\<open>createReimbursementEntries\<close>\<close>

lemma insertReimbursementEntry_simps [simp]:
  "reimbursements (insertReimbursementEntry now i w)
     = reimbursements w @ [entry_reimbursement w now i]"
  "reimbursements_id_seq (insertReimbursementEntry now i w) = Suc (reimbursements_id_seq w)"
  "interest_snapshots (insertReimbursementEntry now i w) = interest_snapshots w"
  "borrower_positions (insertReimbursementEntry now i w) = borrower_positions w"
  "markets (insertReimbursementEntry now i w) = markets w"
  "vault_supply_snapshots (insertReimbursementEntry now i w) = vault_supply_snapshots w"
  "vault_allocations (insertReimbursementEntry now i w) = vault_allocations w"
  by (simp_all add: insertReimbursementEntry_def entry_reimbursement_def)

lemma createEntries_skip:
  "existingReimbursements w (is_position_id i) (is_snapshot_date i) \<noteq> [] \<Longrightarrow>
   createEntries now (i # rest) (w, c) = createEntries now rest (w, c)"
  by simp

lemma createEntries_insert:
  "existingReimbursements w (is_position_id i) (is_snapshot_date i) = [] \<Longrightarrow>
   createEntries now (i # rest) (w, c)
     = createEntries now rest (insertReimbursementEntry now i w, c + 1)"
  by simp

lemma existing_after_insert:
  "existingReimbursements (insertReimbursementEntry now i w) pid d =
     existingReimbursements w pid d @
       (if is_position_id i = pid \<and> is_snapshot_date i = d then [entry_reimbursement w now i]
        else [])"
  by (auto simp add: existingReimbursements_def entry_reimbursement_def)

lemma createEntries_frame:
  "interest_snapshots (fst (createEntries now rows (w, c))) = interest_snapshots w \<and>
   borrower_positions (fst (createEntries now rows (w, c))) = borrower_positions w \<and>
   markets (fst (createEntries now rows (w, c))) = markets w \<and>
   vault_supply_snapshots (fst (createEntries now rows (w, c))) = vault_supply_snapshots w \<and>
   vault_allocations (fst (createEntries now rows (w, c))) = vault_allocations w"
proof (induction rows arbitrary: w c)
  case Nil
  show ?case by simp
next
  case (Cons i rows)
  show ?case
  proof (cases "existingReimbursements w (is_position_id i) (is_snapshot_date i) = []")
    case True
    show ?thesis
      using Cons.IH [of "insertReimbursementEntry now i w" "c + 1"] True by simp
  next
    case False
    show ?thesis
      using Cons.IH [of w c] False by simp
  qed
qed

text \<open>What the loop appends.\<close>

lemma createEntries_new:
  "\<exists>new. reimbursements (fst (createEntries now rows (w, c))) = reimbursements w @ new \<and>
     snd (createEntries now rows (w, c)) = c + length new \<and>
     (\<forall>r \<in> set new. \<exists>i \<in> set rows.
         r_position_id r = is_position_id i \<and> r_amount r = is_interest_above_cap i \<and>
         r_period_start r = is_snapshot_date i \<and> r_period_end r = is_snapshot_date i \<and>
         r_status r = Pending \<and> r_tx_hash r = None \<and> r_processed_at r = None \<and>
         r_created_at r = now \<and>
         existingReimbursements w (is_position_id i) (is_snapshot_date i) = []) \<and>
     distinct (map (\<lambda>r. (r_position_id r, r_period_start r)) new)"
proof (induction rows arbitrary: w c)
  case Nil
  show ?case by simp
next
  case (Cons i rows)
  show ?case
  proof (cases "existingReimbursements w (is_position_id i) (is_snapshot_date i) = []")
    case False
    from Cons.IH [of w c] obtain new where new:
      "reimbursements (fst (createEntries now rows (w, c))) = reimbursements w @ new"
      "snd (createEntries now rows (w, c)) = c + length new"
      "\<forall>r \<in> set new. \<exists>i \<in> set rows.
         r_position_id r = is_position_id i \<and> r_amount r = is_interest_above_cap i \<and>
         r_period_start r = is_snapshot_date i \<and> r_period_end r = is_snapshot_date i \<and>
         r_status r = Pending \<and> r_tx_hash r = None \<and> r_processed_at r = None \<and>
         r_created_at r = now \<and>
         existingReimbursements w (is_position_id i) (is_snapshot_date i) = []"
      "distinct (map (\<lambda>r. (r_position_id r, r_period_start r)) new)"
      by blast
    show ?thesis
      unfolding createEntries_skip [OF False]
      by (rule exI [of _ new]) (use new in auto)
  next
    case True
    let ?w1 = "insertReimbursementEntry now i w"
    let ?e = "entry_reimbursement w now i"
    from Cons.IH [of ?w1 "c + 1"] obtain new where new:
      "reimbursements (fst (createEntries now rows (?w1, c + 1))) = reimbursements ?w1 @ new"
      "snd (createEntries now rows (?w1, c + 1)) = c + 1 + length new"
      "\<forall>r \<in> set new. \<exists>j \<in> set rows.
         r_position_id r = is_position_id j \<and> r_amount r = is_interest_above_cap j \<and>
         r_period_start r = is_snapshot_date j \<and> r_period_end r = is_snapshot_date j \<and>
         r_status r = Pending \<and> r_tx_hash r = None \<and> r_processed_at r = None \<and>
         r_created_at r = now \<and>
         existingReimbursements ?w1 (is_position_id j) (is_snapshot_date j) = []"
      "distinct (map (\<lambda>r. (r_position_id r, r_period_start r)) new)"
      by blast
    have e: "r_position_id ?e = is_position_id i" "r_amount ?e = is_interest_above_cap i"
      "r_period_start ?e = is_snapshot_date i" "r_period_end ?e = is_snapshot_date i"
      "r_status ?e = Pending" "r_tx_hash ?e = None" "r_processed_at ?e = None"
      "r_created_at ?e = now"
      by (simp_all add: entry_reimbursement_def)
    have old: "existingReimbursements w pid d = []"
      if "existingReimbursements ?w1 pid d = []" for pid d
      using that by (simp add: existing_after_insert)
    have other: "(is_position_id j, is_snapshot_date j) \<noteq> (is_position_id i, is_snapshot_date i)"
      if "existingReimbursements ?w1 (is_position_id j) (is_snapshot_date j) = []" for j
      using that by (auto simp add: existing_after_insert split: if_splits)
    have props: "\<forall>r \<in> set (?e # new). \<exists>j \<in> set (i # rows).
         r_position_id r = is_position_id j \<and> r_amount r = is_interest_above_cap j \<and>
         r_period_start r = is_snapshot_date j \<and> r_period_end r = is_snapshot_date j \<and>
         r_status r = Pending \<and> r_tx_hash r = None \<and> r_processed_at r = None \<and>
         r_created_at r = now \<and>
         existingReimbursements w (is_position_id j) (is_snapshot_date j) = []"
    proof
      fix r assume "r \<in> set (?e # new)"
      then consider "r = ?e" | "r \<in> set new" by auto
      then show "\<exists>j \<in> set (i # rows).
         r_position_id r = is_position_id j \<and> r_amount r = is_interest_above_cap j \<and>
         r_period_start r = is_snapshot_date j \<and> r_period_end r = is_snapshot_date j \<and>
         r_status r = Pending \<and> r_tx_hash r = None \<and> r_processed_at r = None \<and>
         r_created_at r = now \<and>
         existingReimbursements w (is_position_id j) (is_snapshot_date j) = []"
      proof cases
        case 1
        show ?thesis by (rule bexI [of _ i]) (simp_all add: 1 e True)
      next
        case 2
        with new(3) obtain j where j: "j \<in> set rows"
          "r_position_id r = is_position_id j \<and> r_amount r = is_interest_above_cap j \<and>
           r_period_start r = is_snapshot_date j \<and> r_period_end r = is_snapshot_date j \<and>
           r_status r = Pending \<and> r_tx_hash r = None \<and> r_processed_at r = None \<and>
           r_created_at r = now"
          "existingReimbursements ?w1 (is_position_id j) (is_snapshot_date j) = []"
          by blast
        show ?thesis by (rule bexI [of _ j]) (use j old in simp_all)
      qed
    qed
    have fresh: "(r_position_id ?e, r_period_start ?e)
        \<notin> set (map (\<lambda>r. (r_position_id r, r_period_start r)) new)"
    proof
      assume "(r_position_id ?e, r_period_start ?e)
        \<in> set (map (\<lambda>r. (r_position_id r, r_period_start r)) new)"
      then obtain r where r: "r \<in> set new" "r_position_id r = is_position_id i"
        "r_period_start r = is_snapshot_date i"
        by (auto simp: e)
      from new(3) [THEN bspec, OF r(1)] obtain j where j: "j \<in> set rows"
        "r_position_id r = is_position_id j" "r_period_start r = is_snapshot_date j"
        "existingReimbursements ?w1 (is_position_id j) (is_snapshot_date j) = []"
        by blast
      from other [OF j(4)] r j show False by simp
    qed
    show ?thesis
      unfolding createEntries_insert [OF True]
      by (rule exI [of _ "?e # new"]) (use new props fresh in simp)
  qed
qed

lemma createEntries_existing_mono:
  assumes "existingReimbursements w pid d \<noteq> []"
  shows "existingReimbursements (fst (createEntries now rows (w, c))) pid d \<noteq> []"
proof -
  from createEntries_new [of now rows w c] obtain new where
    "reimbursements (fst (createEntries now rows (w, c))) = reimbursements w @ new" by blast
  with assms show ?thesis by (simp add: existingReimbursements_def)
qed

lemma createEntries_all_existing:
  "\<forall>i \<in> set rows.
     existingReimbursements (fst (createEntries now rows (w, c)))
       (is_position_id i) (is_snapshot_date i) \<noteq> []"
proof (induction rows arbitrary: w c)
  case Nil
  show ?case by simp
next
  case (Cons i rows)
  show ?case
  proof (cases "existingReimbursements w (is_position_id i) (is_snapshot_date i) = []")
    case False
    show ?thesis
      unfolding createEntries_skip [OF False]
      using Cons.IH [of w c] createEntries_existing_mono [OF False] by simp
  next
    case True
    have "existingReimbursements (insertReimbursementEntry now i w)
        (is_position_id i) (is_snapshot_date i) \<noteq> []"
      by (simp add: existing_after_insert)
    from createEntries_existing_mono [OF this]
    show ?thesis
      unfolding createEntries_insert [OF True]
      using Cons.IH [of "insertReimbursementEntry now i w" "c + 1"] by simp
  qed
qed

lemma createEntries_nothing_to_do:
  assumes "\<forall>i \<in> set rows.
     existingReimbursements w (is_position_id i) (is_snapshot_date i) \<noteq> []"
  shows "createEntries now rows (w, c) = (w, c)"
  using assms by (induction rows) simp_all

lemma positionsNeedingReimbursement_cong:
  assumes "interest_snapshots w' = interest_snapshots w"
    "borrower_positions w' = borrower_positions w" "markets w' = markets w"
  shows "positionsNeedingReimbursement w' date = positionsNeedingReimbursement w date"
  using assms by (simp add: positionsNeedingReimbursement_def has_market_def)

subsection \<open>Creating the entries of a day twice\<close>

text \<open>
  Claim C7. A second call of \<^verbatim>\<open>createReimbursementEntries\<close> for the same day, on the
  store the first call left, inserts nothing and returns 0. The first call appends at
  most one row per qualifying position, and after it every qualifying snapshot has its
  reimbursement of that day.
\<close>

theorem createReimbursementEntries_twice:
  "\<exists>w1 n1 new.
     createReimbursementEntries date now w = (w1, n1) \<and>
     createReimbursementEntries date now' w1 = (w1, 0) \<and>
     reimbursements w1 = reimbursements w @ new \<and> n1 = length new \<and>
     distinct (map r_position_id new) \<and>
     (\<forall>i \<in> set (positionsNeedingReimbursement w date).
         existingReimbursements w1 (is_position_id i) (date_of date) \<noteq> [])"
proof -
  let ?rows = "positionsNeedingReimbursement w date"
  obtain w1 n1 where run: "createEntries now ?rows (w, 0) = (w1, n1)" by (cases "createEntries now ?rows (w, 0)")
  have first: "createReimbursementEntries date now w = (w1, n1)"
    by (simp add: createReimbursementEntries_def run)
  have day: "is_snapshot_date i = date_of date" if "i \<in> set ?rows" for i
    using that by (simp add: positionsNeedingReimbursement_def)
  have all: "\<forall>i \<in> set ?rows.
      existingReimbursements w1 (is_position_id i) (is_snapshot_date i) \<noteq> []"
    using createEntries_all_existing [of ?rows now w 0] by (simp add: run)
  have rows: "positionsNeedingReimbursement w1 date = ?rows"
    using createEntries_frame [of now ?rows w 0]
    by (intro positionsNeedingReimbursement_cong) (simp_all add: run)
  have second: "createReimbursementEntries date now' w1 = (w1, 0)"
    unfolding createReimbursementEntries_def rows
    by (rule createEntries_nothing_to_do [OF all])
  from createEntries_new [of now ?rows w 0] obtain new where new:
    "reimbursements w1 = reimbursements w @ new" "n1 = length new"
    "\<forall>r \<in> set new. \<exists>i \<in> set ?rows.
         r_position_id r = is_position_id i \<and> r_amount r = is_interest_above_cap i \<and>
         r_period_start r = is_snapshot_date i \<and> r_period_end r = is_snapshot_date i \<and>
         r_status r = Pending \<and> r_tx_hash r = None \<and> r_processed_at r = None \<and>
         r_created_at r = now \<and>
         existingReimbursements w (is_position_id i) (is_snapshot_date i) = []"
    "distinct (map (\<lambda>r. (r_position_id r, r_period_start r)) new)"
    unfolding run fst_conv snd_conv by auto
  have "r_period_start r = date_of date" if "r \<in> set new" for r
    using new(3) [THEN bspec, OF that] day by auto
  then have "map (\<lambda>r. (r_position_id r, r_period_start r)) new
      = map (\<lambda>r. (r_position_id r, date_of date)) new"
    by simp
  with new(4) have "distinct (map (\<lambda>r. (r_position_id r, date_of date)) new)" by simp
  then have dist: "distinct (map r_position_id new)"
    by (simp add: distinct_map inj_on_def)
  have all': "\<forall>i \<in> set ?rows.
      existingReimbursements w1 (is_position_id i) (date_of date) \<noteq> []"
    using all day by auto
  show ?thesis using first second new(1,2) dist all' by blast
qed

theorem createReimbursementEntries_twice_witness:
  "\<exists>w1. createReimbursementEntries 0 5 demo_world_snapshot = (w1, 1) \<and>
     createReimbursementEntries 0 9 w1 = (w1, 0) \<and>
     map r_position_id (reimbursements w1) = [1]"
proof -
  have rows: "positionsNeedingReimbursement demo_world_snapshot 0 = [demo_snapshot]"
    by (simp add: positionsNeedingReimbursement_def has_market_def demo_world_snapshot_def
        demo_snapshot_def demo_defs date_of_def)
  have first: "createReimbursementEntries 0 5 demo_world_snapshot =
      (insertReimbursementEntry 5 demo_snapshot demo_world_snapshot, 1)"
    unfolding createReimbursementEntries_def rows
    by (simp add: existingReimbursements_def demo_world_snapshot_def demo_world_def)
  from createReimbursementEntries_twice [of 0 5 demo_world_snapshot 9]
  obtain w1 n1 where run: "createReimbursementEntries 0 5 demo_world_snapshot = (w1, n1)"
    "createReimbursementEntries 0 9 w1 = (w1, 0)"
    by blast
  from run(1) first
  have w1: "w1 = insertReimbursementEntry 5 demo_snapshot demo_world_snapshot" "n1 = 1"
    by simp_all
  have ids: "map r_position_id (reimbursements w1) = [1]"
    unfolding w1
    by (simp add: entry_reimbursement_def demo_snapshot_def demo_world_snapshot_def
        demo_world_def)
  show ?thesis using run ids w1(2) by (intro exI [of _ w1]) simp
qed

subsection \<open>Whole runs of the two snapshot services\<close>

lemma processDailySnapshot_rel:
  assumes refl: "\<And>w. R w w"
    and trans: "\<And>a b c. R a b \<Longrightarrow> R b c \<Longrightarrow> R a c"
    and step: "\<And>p w w'. processPosition api now p w = Inr w' \<Longrightarrow> R w w'"
    and line: "\<And>w l. R w (console_add l w)"
    and run: "processDailySnapshot api now w = Inr w'"
  shows "R w w'"
proof (cases "getActivePositions w = []")
  case True
  with run have "w' = console_add Log_no_active_positions
      (console_add (Log_found_positions (length (getActivePositions w))) w)"
    by (simp add: processDailySnapshot_def Let_def)
  then show ?thesis using trans [OF line line] by simp
next
  case False
  let ?w0 = "console_add (Log_found_positions (length (getActivePositions w))) w"
  define out where "out = processPositions api now (getActivePositions w) (?w0, 0, 0)"
  have loop: "R ?w0 (fst out)"
    unfolding out_def by (rule processPositions_rel [OF refl trans step line])
  from run have "w' = console_add (Log_created_reimbursements (snd (snd out)))
      (console_add (Log_processed (fst (snd out)) (length (getActivePositions w))) (fst out))"
    unfolding out_def processDailySnapshot_nonempty [OF False] by simp
  then show ?thesis
    using trans [OF line trans [OF loop trans [OF line line]]] by simp
qed

lemma processAllocation_cases:
  obtains (throws) e where "getMarketState api (ar_market_id a) = Inl e"
      "processAllocation api a w = Inl e"
  | (no_state) "api (ar_market_id a) = Market None"
      "processAllocation api a w =
         Inr (console_add (Warn_no_market_data_for (ar_market_name a) (ar_vault_name a)) w)"
  | (state) st where "api (ar_market_id a) = Market (Some st)"
      "processAllocation api a w =
         Inr (console_add
                (Log_allocation (ar_vault_name a) (ar_market_name a)
                   (vs_interest_earned (allocation_snapshot w a st))
                   (vs_interest_above_cap (allocation_snapshot w a st)))
                (saveSupplySnapshot (allocation_snapshot w a st) w))"
proof (cases "getMarketState api (ar_market_id a)")
  case (Inl e)
  then show ?thesis using throws by (simp add: processAllocation_def)
next
  case (Inr x)
  then have m: "api (ar_market_id a) = Market x"
    by (simp add: getMarketState_def split: api_response.splits)
  show ?thesis
  proof (cases x)
    case None
    with m Inr show ?thesis using no_state by (simp add: processAllocation_def)
  next
    case (Some st)
    with m Inr show ?thesis using state [of st]
      by (simp add: processAllocation_def Let_def allocation_snapshot_def)
  qed
qed

lemma processAllocations_rel:
  assumes refl: "\<And>w. R w w"
    and trans: "\<And>a b c. R a b \<Longrightarrow> R b c \<Longrightarrow> R a c"
    and step: "\<And>a w w'. processAllocation api a w = Inr w' \<Longrightarrow> R w w'"
    and line: "\<And>w l. R w (console_add l w)"
  shows "R w (fst (processAllocations api as (w, pc)))"
proof (induction as arbitrary: w pc)
  case Nil
  show ?case by (simp add: refl)
next
  case (Cons a as)
  show ?case
  proof (cases "processAllocation api a w")
    case (Inl e)
    obtain msg where e: "e = Error msg" by (cases e)
    show ?thesis using trans [OF line Cons.IH] by (simp add: Inl e)
  next
    case (Inr w')
    show ?thesis using trans [OF step [OF Inr] Cons.IH] by (simp add: Inr)
  qed
qed

lemma processDailySupplySnapshots_total:
  "\<exists>w'. processDailySupplySnapshots api w = Inr w'"
  by (simp add: processDailySupplySnapshots_def Let_def split: prod.splits)

lemma processDailySupplySnapshots_rel:
  assumes refl: "\<And>w. R w w"
    and trans: "\<And>a b c. R a b \<Longrightarrow> R b c \<Longrightarrow> R a c"
    and step: "\<And>a w w'. processAllocation api a w = Inr w' \<Longrightarrow> R w w'"
    and line: "\<And>w l. R w (console_add l w)"
    and run: "processDailySupplySnapshots api w = Inr w'"
  shows "R w w'"
proof (cases "getActiveVaultAllocations w = []")
  case True
  with run have "w' = console_add Log_no_allocations
      (console_add (Log_found_allocations (length (getActiveVaultAllocations w))) w)"
    by (simp add: processDailySupplySnapshots_def Let_def)
  then show ?thesis using trans [OF line line] by simp
next
  case False
  let ?w0 = "console_add (Log_found_allocations (length (getActiveVaultAllocations w))) w"
  define out where "out = processAllocations api (getActiveVaultAllocations w) (?w0, 0)"
  have loop: "R ?w0 (fst out)"
    unfolding out_def by (rule processAllocations_rel [OF refl trans step line])
  from run False have "w' = console_add
      (Log_processed_allocations (snd out) (length (getActiveVaultAllocations w))) (fst out)"
    unfolding out_def by (simp add: processDailySupplySnapshots_def Let_def split: prod.splits)
  then show ?thesis
    using trans [OF line trans [OF loop line]] by simp
qed

lemma console_add_tables [simp]:
  "markets (console_add l w) = markets w"
  "vaults (console_add l w) = vaults w"
  "vault_allocations (console_add l w) = vault_allocations w"
  "borrower_positions (console_add l w) = borrower_positions w"
  "interest_snapshots (console_add l w) = interest_snapshots w"
  "vault_supply_snapshots (console_add l w) = vault_supply_snapshots w"
  "reimbursements (console_add l w) = reimbursements w"
  "reimbursements_id_seq (console_add l w) = reimbursements_id_seq w"
  by (simp_all add: console_add_def)

lemma saveSupplySnapshot_tables [simp]:
  "markets (saveSupplySnapshot d w) = markets w"
  "vaults (saveSupplySnapshot d w) = vaults w"
  "vault_allocations (saveSupplySnapshot d w) = vault_allocations w"
  "borrower_positions (saveSupplySnapshot d w) = borrower_positions w"
  "interest_snapshots (saveSupplySnapshot d w) = interest_snapshots w"
  "reimbursements (saveSupplySnapshot d w) = reimbursements w"
  "reimbursements_id_seq (saveSupplySnapshot d w) = reimbursements_id_seq w"
  by (simp_all add: saveSupplySnapshot_def)

lemma saveSupplySnapshot_old_or_new:
  assumes "s \<in> set (vault_supply_snapshots (saveSupplySnapshot d w))"
  shows "s \<in> set (vault_supply_snapshots w) \<or>
         vs_interest_above_cap s = vs_interest_above_cap d"
  using assms by (auto simp: saveSupplySnapshot_def split: if_splits)

subsection \<open>Signs of the recorded amounts\<close>

lemma decimal18_zero [simp]: "decimal18 0 = 0"
  by (simp add: decimal18_def)

lemma decimal18_pos:
  assumes "0 < q"
  shows "decimal18 q = of_int \<lfloor>q * 10 ^ 18 + 1 / 2\<rfloor> / 10 ^ 18"
  using assms by (simp add: decimal18_def)

lemma decimal18_nonneg:
  assumes "0 \<le> q"
  shows "0 \<le> decimal18 q"
proof (cases "q = 0")
  case True
  then show ?thesis by simp
next
  case False
  with assms have q: "0 < q" by simp
  then have "0 \<le> q * 10 ^ 18 + 1 / 2" by simp
  then have "0 \<le> \<lfloor>q * 10 ^ 18 + 1 / 2\<rfloor>" by simp
  then show ?thesis unfolding decimal18_pos [OF q] by simp
qed

lemma decimal18_pos_iff:
  assumes "0 < q"
  shows "0 < decimal18 q \<longleftrightarrow> 1 / 2 \<le> q * 10 ^ 18"
proof -
  have "0 < decimal18 q \<longleftrightarrow> 0 < \<lfloor>q * 10 ^ 18 + 1 / 2\<rfloor>"
    unfolding decimal18_pos [OF assms] by (simp add: zero_less_divide_iff)
  also have "\<dots> \<longleftrightarrow> 1 \<le> \<lfloor>q * 10 ^ 18 + 1 / 2\<rfloor>" by linarith
  also have "\<dots> \<longleftrightarrow> 1 \<le> q * 10 ^ 18 + 1 / 2" by (simp add: le_floor_iff)
  also have "\<dots> \<longleftrightarrow> 1 / 2 \<le> q * 10 ^ 18" by linarith
  finally show ?thesis .
qed

lemma processPosition_snapshot_sign:
  assumes "processPosition api now p w = Inr w'" "s \<in> set (interest_snapshots w')"
  shows "s \<in> set (interest_snapshots w) \<or> 0 \<le> is_interest_above_cap s"
  using processPosition_snapshots [OF assms(1)] assms(2)
  by (auto simp: position_snapshot_above_nonneg)

lemma processPosition_reimbursement_amount:
  assumes "processPosition api now p w = Inr w'" "r \<in> set (reimbursements w')"
  shows "r \<in> set (reimbursements w) \<or> (\<exists>x. 0 < x \<and> r_amount r = decimal18 x)"
  using processPosition_reimbursements [OF assms(1)] assms(2)
  by (auto simp: inline_reimbursement_def)

lemma processAllocation_snapshot_sign:
  assumes "processAllocation api a w = Inr w'" "s \<in> set (vault_supply_snapshots w')"
  shows "s \<in> set (vault_supply_snapshots w) \<or> 0 \<le> vs_interest_above_cap s"
proof (cases rule: processAllocation_cases [of api a w])
  case (throws e)
  with assms show ?thesis by simp
next
  case no_state
  with assms show ?thesis by auto
next
  case (state st)
  with assms have "s \<in> set (vault_supply_snapshots (saveSupplySnapshot (allocation_snapshot w a st) w))"
    by auto
  from saveSupplySnapshot_old_or_new [OF this]
  show ?thesis by (auto simp: allocation_snapshot_def)
qed

lemma demo_positions: "getActivePositions demo_world = [demo_position]"
  by (simp add: getActivePositions_def has_market_def demo_defs)

lemma demo_run:
  "processDailySnapshot demo_api 0 demo_world =
     Inr (demo_world
       \<lparr>borrower_positions := [demo_position\<lparr>bp_current_debt := 1000 + 36 / 73\<rparr>],
        interest_snapshots := [demo_snapshot],
        reimbursements :=
          [\<lparr>r_id = 1, r_position_id = 1, r_amount = decimal18 (12 / 73),
            r_period_start = - 1, r_period_end = 0, r_status = Pending, r_tx_hash = None,
            r_created_at = 0, r_processed_at = None\<rparr>],
        reimbursements_id_seq := 2,
        console := [Log_found_positions 1, Log_reimbursement_created 1 (12 / 73),
                    Log_processed 1 1, Log_created_reimbursements 1]\<rparr>)"
  unfolding processDailySnapshot_def demo_positions Let_def
  by (simp add: processPosition_def getMarketState_def getCappedRate_def Let_def
      saveInterestSnapshot_def createReimbursement_def updatePositionDebt_def console_add_def
      checkRecentReimbursement_def date_of_def demo_defs demo_snapshot_def)

lemma decimal18_dust: "decimal18 (3 / 18250000000000000000) = 0"
proof -
  have "\<lfloor>(3 / 18250000000000000000 :: rat) * 10 ^ 18 + 1 / 2\<rfloor> = 0"
    by (simp add: floor_eq_iff)
  then show ?thesis by (simp add: decimal18_def)
qed

text \<open>
  The amounts that the runs record. Every interest snapshot and every vault supply
  snapshot that a run writes has \<open>interest_above_cap \<ge> 0\<close>, and every reimbursement
  that \<^verbatim>\<open>createReimbursementEntries\<close> inserts has \<open>amount > 0\<close>: its query keeps the
  snapshots whose stored \<open>interest_above_cap\<close> is positive. The amount of a
  reimbursement that the Snapshot Engine inserts inline is a positive number \<open>x\<close> rounded
  to 18 decimals: it is not negative, and it is positive if and only if
  \<open>x \<ge> 1 / (2 * 10 ^ 18)\<close>. A row of a table after the call is a row that was there
  before, or satisfies the bound.
\<close>

lemma recorded_amounts_signs:
  "(\<exists>w'. processDailySnapshot api now w = Inr w' \<and>
      (\<forall>s \<in> set (interest_snapshots w').
          s \<in> set (interest_snapshots w) \<or> 0 \<le> is_interest_above_cap s) \<and>
      (\<forall>r \<in> set (reimbursements w').
          r \<in> set (reimbursements w) \<or>
          0 \<le> r_amount r \<and>
          (\<exists>x. 0 < x \<and> r_amount r = decimal18 x \<and>
               (0 < r_amount r \<longleftrightarrow> 1 / 2 \<le> x * 10 ^ 18)))) \<and>
   (\<exists>w'. processDailySupplySnapshots api w = Inr w' \<and>
      (\<forall>s \<in> set (vault_supply_snapshots w').
          s \<in> set (vault_supply_snapshots w) \<or> 0 \<le> vs_interest_above_cap s)) \<and>
   (\<forall>r \<in> set (reimbursements (fst (createReimbursementEntries date now w))).
      r \<in> set (reimbursements w) \<or> 0 < r_amount r)"
proof (intro conjI)
  obtain w' where run: "processDailySnapshot api now w = Inr w'"
    using processDailySnapshot_total by blast
  have a: "\<forall>s \<in> set (interest_snapshots w').
          s \<in> set (interest_snapshots w) \<or> 0 \<le> is_interest_above_cap s"
    by (rule processDailySnapshot_rel [where R = "\<lambda>a b. \<forall>s \<in> set (interest_snapshots b).
          s \<in> set (interest_snapshots a) \<or> 0 \<le> is_interest_above_cap s", OF _ _ _ _ run])
       (auto dest: processPosition_snapshot_sign)
  have b: "\<forall>r \<in> set (reimbursements w').
          r \<in> set (reimbursements w) \<or> (\<exists>x. 0 < x \<and> r_amount r = decimal18 x)"
    by (rule processDailySnapshot_rel [where R = "\<lambda>a b. \<forall>r \<in> set (reimbursements b).
          r \<in> set (reimbursements a) \<or> (\<exists>x. 0 < x \<and> r_amount r = decimal18 x)",
          OF _ _ _ _ run])
       (auto dest: processPosition_reimbursement_amount)
  have c: "r \<in> set (reimbursements w) \<or>
          0 \<le> r_amount r \<and>
          (\<exists>x. 0 < x \<and> r_amount r = decimal18 x \<and>
               (0 < r_amount r \<longleftrightarrow> 1 / 2 \<le> x * 10 ^ 18))"
    if r: "r \<in> set (reimbursements w')" for r
  proof (cases "r \<in> set (reimbursements w)")
    case True
    then show ?thesis by simp
  next
    case False
    with b r obtain x where x: "0 < x" "r_amount r = decimal18 x" by blast
    from x have "0 \<le> r_amount r" by (simp add: decimal18_nonneg)
    moreover from x have "0 < r_amount r \<longleftrightarrow> 1 / 2 \<le> x * 10 ^ 18"
      by (simp add: decimal18_pos_iff)
    ultimately show ?thesis using x by blast
  qed
  show "\<exists>w'. processDailySnapshot api now w = Inr w' \<and>
      (\<forall>s \<in> set (interest_snapshots w').
          s \<in> set (interest_snapshots w) \<or> 0 \<le> is_interest_above_cap s) \<and>
      (\<forall>r \<in> set (reimbursements w').
          r \<in> set (reimbursements w) \<or>
          0 \<le> r_amount r \<and>
          (\<exists>x. 0 < x \<and> r_amount r = decimal18 x \<and>
               (0 < r_amount r \<longleftrightarrow> 1 / 2 \<le> x * 10 ^ 18)))"
    using run a c by (intro exI [of _ w'] conjI ballI) auto
next
  obtain w' where run: "processDailySupplySnapshots api w = Inr w'"
    using processDailySupplySnapshots_total by blast
  have "\<forall>s \<in> set (vault_supply_snapshots w').
          s \<in> set (vault_supply_snapshots w) \<or> 0 \<le> vs_interest_above_cap s"
    by (rule processDailySupplySnapshots_rel [where R = "\<lambda>a b.
          \<forall>s \<in> set (vault_supply_snapshots b).
             s \<in> set (vault_supply_snapshots a) \<or> 0 \<le> vs_interest_above_cap s",
          OF _ _ _ _ run])
       (auto dest: processAllocation_snapshot_sign)
  with run show "\<exists>w'. processDailySupplySnapshots api w = Inr w' \<and>
      (\<forall>s \<in> set (vault_supply_snapshots w').
          s \<in> set (vault_supply_snapshots w) \<or> 0 \<le> vs_interest_above_cap s)"
    by blast
next
  let ?rows = "positionsNeedingReimbursement w date"
  from createEntries_new [of now ?rows w 0] obtain new where new:
    "reimbursements (fst (createEntries now ?rows (w, 0))) = reimbursements w @ new"
    "\<forall>r \<in> set new. \<exists>i \<in> set ?rows.
         r_position_id r = is_position_id i \<and> r_amount r = is_interest_above_cap i \<and>
         r_period_start r = is_snapshot_date i \<and> r_period_end r = is_snapshot_date i \<and>
         r_status r = Pending \<and> r_tx_hash r = None \<and> r_processed_at r = None \<and>
         r_created_at r = now \<and>
         existingReimbursements w (is_position_id i) (is_snapshot_date i) = []"
    by blast
  have pos: "0 < is_interest_above_cap i" if "i \<in> set ?rows" for i
    using that by (simp add: positionsNeedingReimbursement_def)
  have "0 < r_amount r" if "r \<in> set new" for r
  proof -
    from new(2) [THEN bspec, OF that] obtain i where "i \<in> set ?rows"
      "r_amount r = is_interest_above_cap i" by blast
    with pos show ?thesis by simp
  qed
  then show "\<forall>r \<in> set (reimbursements (fst (createReimbursementEntries date now w))).
      r \<in> set (reimbursements w) \<or> 0 < r_amount r"
    unfolding createReimbursementEntries_def new(1) by auto
qed

text \<open>
  Claim C10. Every snapshot that the engine writes should have
  \<open>interest_above_cap \<ge> 0\<close> and every reimbursement that either path creates should
  have \<open>amount > 0\<close>. The snapshots and the rows of \<^verbatim>\<open>createReimbursementEntries\<close>
  do (lemma \<open>recorded_amounts_signs\<close>). The inline path of the Snapshot Engine does
  not: it tests \<^verbatim>\<open>interestAboveCap > 0\<close> on the number it has computed, and the column
  \<^verbatim>\<open>amount DECIMAL(36, 18)\<close> then rounds that number. For a debt of \<open>1 / 10 ^ 15\<close>, a
  rate of \<open>0.18\<close> and a cap of \<open>0.12\<close> the excess is \<open>3 / 18250000000000000000\<close>,
  below \<open>1 / (2 * 10 ^ 18)\<close>: the run reports one reimbursement created and the row it
  has inserted has the amount \<open>0\<close>.
\<close>

theorem inline_reimbursement_amount_zero:
  "reimbursements demo_world_dust = [] \<and>
   console (projr (processDailySnapshot demo_api 0 demo_world_dust))
     = [Log_found_positions 1, Log_reimbursement_created 1 (3 / 18250000000000000000),
        Log_processed 1 1, Log_created_reimbursements 1] \<and>
   map r_position_id (reimbursements (projr (processDailySnapshot demo_api 0 demo_world_dust)))
     = [1] \<and>
   map r_amount (reimbursements (projr (processDailySnapshot demo_api 0 demo_world_dust)))
     = [0]"
proof -
  have ps: "getActivePositions demo_world_dust
      = [demo_position\<lparr>bp_current_debt := 1 / 10 ^ 15\<rparr>]"
    by (simp add: getActivePositions_def has_market_def demo_world_dust_def demo_defs)
  show ?thesis
    unfolding processDailySnapshot_def ps Let_def
    by (simp add: processPosition_def getMarketState_def getCappedRate_def Let_def
      saveInterestSnapshot_def createReimbursement_def updatePositionDebt_def console_add_def
      checkRecentReimbursement_def date_of_def demo_defs demo_world_dust_def decimal18_dust)
qed

subsection \<open>The two paths that create reimbursements\<close>

text \<open>
  Claim C2. Both creation paths should insert, for a snapshot with
  \<open>interest_above_cap > 0\<close>, a reimbursement of that position with
  \<open>period_start = period_end\<close> equal to the snapshot day, and only if no reimbursement
  of that (position, day) exists. \<^verbatim>\<open>createReimbursementEntries\<close> does: it looks for a row
  with that position and \<open>period_start = period_end = snapshot_date\<close> and writes such a
  row. The inline path of the Snapshot Engine does not: \<^verbatim>\<open>createReimbursement\<close> makes no
  existence check and writes \<^verbatim>\<open>CURRENT_DATE - INTERVAL '1 day'\<close> as \<open>period_start\<close> and
  \<^verbatim>\<open>CURRENT_DATE\<close> as \<open>period_end\<close>, dates of the database clock and not the day of the
  snapshot, so the check of \<^verbatim>\<open>createReimbursementEntries\<close> does not see its rows. On the
  demo store the daily run of day 0 followed by \<^verbatim>\<open>createReimbursementEntries\<close> for day 0
  leaves two reimbursements of position 1 for its one snapshot of day 0, with the
  periods \<open>(-1, 0)\<close> and \<open>(0, 0)\<close>.
\<close>

theorem inline_reimbursement_not_guarded:
  "processDailySnapshot demo_api 0 demo_world = Inr demo_world_after_run \<and>
   map is_position_id (interest_snapshots demo_world_after_run) = [1] \<and>
   map is_snapshot_date (interest_snapshots demo_world_after_run) = [0] \<and>
   map r_position_id (reimbursements demo_world_after_run) = [1] \<and>
   map r_period_start (reimbursements demo_world_after_run) = [- 1] \<and>
   map r_period_end (reimbursements demo_world_after_run) = [0] \<and>
   snd (createReimbursementEntries 0 5 demo_world_after_run) = 1 \<and>
   map r_position_id
     (reimbursements (fst (createReimbursementEntries 0 5 demo_world_after_run))) = [1, 1] \<and>
   map r_period_start
     (reimbursements (fst (createReimbursementEntries 0 5 demo_world_after_run))) = [- 1, 0] \<and>
   map r_period_end
     (reimbursements (fst (createReimbursementEntries 0 5 demo_world_after_run))) = [0, 0]"
proof -
  have rows: "positionsNeedingReimbursement demo_world_after_run 0 = [demo_snapshot]"
    by (simp add: positionsNeedingReimbursement_def has_market_def demo_world_after_run_def
        demo_snapshot_def demo_defs date_of_def)
  have entries: "createReimbursementEntries 0 5 demo_world_after_run
      = (insertReimbursementEntry 5 demo_snapshot demo_world_after_run, 1)"
    unfolding createReimbursementEntries_def rows
    by (simp add: existingReimbursements_def demo_world_after_run_def demo_world_def
        demo_snapshot_def)
  show ?thesis
    unfolding entries
    by (simp add: demo_run demo_world_after_run_def demo_snapshot_def entry_reimbursement_def)
qed

subsection \<open>The debt of a processed position\<close>

lemma updatePositionDebt_simps [simp]:
  "borrower_positions (updatePositionDebt now k d w) =
     map (\<lambda>bp. if bp_id bp = k then bp\<lparr>bp_current_debt := d, bp_updated_at := now\<rparr> else bp)
       (borrower_positions w)"
  "markets (updatePositionDebt now k d w) = markets w"
  "vault_allocations (updatePositionDebt now k d w) = vault_allocations w"
  "interest_snapshots (updatePositionDebt now k d w) = interest_snapshots w"
  "reimbursements (updatePositionDebt now k d w) = reimbursements w"
  by (simp_all add: updatePositionDebt_def)

lemma processPosition_positions_state:
  assumes "api (bp_market_id q) = Market (Some st)" "processPosition api now q w = Inr w'"
  shows "borrower_positions w' =
     map (\<lambda>bp. if bp_id bp = bp_id q
                then bp\<lparr>bp_current_debt :=
                          bp_current_debt q + bp_current_debt q * (borrowApy st / 365),
                        bp_updated_at := now\<rparr>
                else bp)
       (borrower_positions w)"
  using assms(2) unfolding processPosition_state [where api=api and p=q, OF assms(1)]
  by (auto simp add: console_add_def createReimbursement_def saveInterestSnapshot_def
      position_snapshot_def)

lemma processPosition_positions_other:
  assumes "processPosition api now q w = Inr w'" "bp_id q \<noteq> k"
  shows "[bp \<leftarrow> borrower_positions w'. bp_id bp = k] = [bp \<leftarrow> borrower_positions w. bp_id bp = k]"
proof (cases rule: processPosition_cases [of api q now w])
  case (throws e)
  with assms show ?thesis by simp
next
  case no_state
  with assms show ?thesis by auto
next
  case (state st)
  have "[bp \<leftarrow> map (\<lambda>bp. if bp_id bp = bp_id q then f bp else bp) xs. bp_id bp = k]
      = [bp \<leftarrow> xs. bp_id bp = k]"
    if "\<And>bp. bp_id (f bp) = bp_id bp" for f and xs :: "borrower_position list"
    using that assms(2) by (induction xs) auto
  then show ?thesis
    unfolding processPosition_positions_state [where api=api and q=q, OF state(1) assms(1)]
    by simp
qed

lemma processPositions_rel_mem:
  assumes refl: "\<And>w. R w w"
    and trans: "\<And>a b c. R a b \<Longrightarrow> R b c \<Longrightarrow> R a c"
    and line: "\<And>w l. R w (console_add l w)"
    and step: "\<And>p w w'. p \<in> set ps \<Longrightarrow> processPosition api now p w = Inr w' \<Longrightarrow> R w w'"
  shows "R w (fst (processPositions api now ps (w, pc, rc)))"
  using step
proof (induction ps arbitrary: w pc rc)
  case Nil
  show ?case by (simp add: refl)
next
  case (Cons p ps)
  have IH: "R v (fst (processPositions api now ps (v, a, b)))" for v a b
  proof (rule Cons.IH)
    fix p' v v' assume "p' \<in> set ps" "processPosition api now p' v = Inr v'"
    then show "R v v'" using Cons.prems [of p' v v'] by simp
  qed
  show ?case
  proof (cases "processPosition api now p w")
    case (Inl e)
    obtain msg where e: "e = Error msg" by (cases e)
    from Inl e have "getMarketState api (bp_market_id p) = Inl (Error msg)"
      by (simp add: processPosition_Inl_iff)
    from processPositions_throws [OF this]
    show ?thesis using trans [OF line IH] by simp
  next
    case (Inr w')
    have "R w w'" by (rule Cons.prems [OF _ Inr]) simp
    from processPositions_ok [OF Inr]
    show ?thesis using trans [OF \<open>R w w'\<close> IH] by simp
  qed
qed

lemma processPositions_untouched:
  assumes "\<forall>q \<in> set ps. bp_id q \<noteq> k"
  shows "[bp \<leftarrow> borrower_positions (fst (processPositions api now ps (w, pc, rc))). bp_id bp = k]
       = [bp \<leftarrow> borrower_positions w. bp_id bp = k]"
  by (rule processPositions_rel_mem [where R = "\<lambda>a b.
        [bp \<leftarrow> borrower_positions b. bp_id bp = k] = [bp \<leftarrow> borrower_positions a. bp_id bp = k]"])
     (use assms in \<open>auto dest: processPosition_positions_other\<close>)

lemma filter_map_same_key:
  "[bp \<leftarrow> map (\<lambda>bp. if bp_id bp = k then bp\<lparr>bp_current_debt := d, bp_updated_at := t\<rparr> else bp)
            xs. bp_id bp = k]
   = map (\<lambda>bp. bp\<lparr>bp_current_debt := d, bp_updated_at := t\<rparr>) [bp \<leftarrow> xs. bp_id bp = k]"
  by (induction xs) auto

lemma processPositions_touched:
  assumes "p \<in> set ps" "\<forall>q \<in> set ps. bp_id q = bp_id p \<longrightarrow> q = p"
    "api (bp_market_id p) = Market (Some st)"
  shows "[bp \<leftarrow> borrower_positions (fst (processPositions api now ps (w, pc, rc))).
            bp_id bp = bp_id p]
       = map (\<lambda>bp. bp\<lparr>bp_current_debt :=
                         bp_current_debt p + bp_current_debt p * (borrowApy st / 365),
                       bp_updated_at := now\<rparr>)
           [bp \<leftarrow> borrower_positions w. bp_id bp = bp_id p]"
  using assms(1,2)
proof (induction ps arbitrary: w pc rc)
  case Nil
  then show ?case by simp
next
  case (Cons q ps)
  let ?set = "\<lambda>bp. bp\<lparr>bp_current_debt :=
                         bp_current_debt p + bp_current_debt p * (borrowApy st / 365),
                       bp_updated_at := now\<rparr>"
  have uniq: "\<forall>q \<in> set ps. bp_id q = bp_id p \<longrightarrow> q = p" using Cons.prems(2) by simp
  show ?case
  proof (cases "q = p")
    case True
    obtain w1 where w1: "processPosition api now p w = Inr w1"
      using interest_snapshots_processPosition
        [where api=api and p=p and st=st and now=now and w=w] assms(3) by blast
    have one: "[bp \<leftarrow> borrower_positions w1. bp_id bp = bp_id p]
        = map ?set [bp \<leftarrow> borrower_positions w. bp_id bp = bp_id p]"
      unfolding processPosition_positions_state [where api=api and q=p, OF assms(3) w1]
      by (rule filter_map_same_key)
    have rest: "[bp \<leftarrow> borrower_positions (fst (processPositions api now ps (w1, a, b))).
            bp_id bp = bp_id p] = map ?set [bp \<leftarrow> borrower_positions w. bp_id bp = bp_id p]"
      for a b
    proof (cases "p \<in> set ps")
      case True
      from Cons.IH [OF True uniq, of w1 a b] show ?thesis
        unfolding one by (simp add: comp_def)
    next
      case False
      with uniq have "\<forall>q \<in> set ps. bp_id q \<noteq> bp_id p" by blast
      from processPositions_untouched [OF this] one show ?thesis by simp
    qed
    show ?thesis unfolding True processPositions_ok [OF w1] by (rule rest)
  next
    case False
    with Cons.prems have p: "p \<in> set ps" and key: "bp_id q \<noteq> bp_id p" by auto
    show ?thesis
    proof (cases "processPosition api now q w")
      case (Inl e)
      obtain msg where e: "e = Error msg" by (cases e)
      from Inl e have g: "getMarketState api (bp_market_id q) = Inl (Error msg)"
        by (simp add: processPosition_Inl_iff)
      show ?thesis
        unfolding processPositions_throws [OF g] Cons.IH [OF p uniq] by simp
    next
      case (Inr w1)
      show ?thesis
        unfolding processPositions_ok [OF Inr] Cons.IH [OF p uniq]
          processPosition_positions_other [OF Inr key] ..
    qed
  qed
qed

lemma filter_distinct_key:
  assumes "distinct (map f xs)" "x \<in> set xs"
  shows "[y \<leftarrow> xs. f y = f x] = [x]"
  using assms
proof (induction xs)
  case Nil
  then show ?case by simp
next
  case (Cons a xs)
  show ?case
  proof (cases "a = x")
    case True
    with Cons.prems have "f x \<notin> f ` set xs" by simp
    then have "\<forall>y \<in> set xs. f y \<noteq> f x" by (metis image_eqI)
    then have "[y \<leftarrow> xs. f y = f x] = []" by (simp add: filter_empty_conv)
    with True show ?thesis by simp
  next
    case False
    with Cons.prems have x: "x \<in> set xs" by simp
    with Cons.prems have "f a \<noteq> f x" by force
    with Cons.IH [OF _ x] Cons.prems show ?thesis by simp
  qed
qed

lemma getActivePositions_subset: "set (getActivePositions w) \<subseteq> set (borrower_positions w)"
  by (auto simp: getActivePositions_def)

text \<open>The vault service writes its snapshot table and the console only.\<close>

lemma processAllocation_frame:
  assumes "processAllocation api a w = Inr w'"
  shows "vault_allocations w' = vault_allocations w \<and>
         borrower_positions w' = borrower_positions w \<and> markets w' = markets w \<and>
         vaults w' = vaults w \<and> interest_snapshots w' = interest_snapshots w \<and>
         reimbursements w' = reimbursements w"
  using assms by (cases rule: processAllocation_cases [of api a w]) auto

text \<open>
  Claim C8. The positions of the run are read once, at its start. A position that the
  run processes (active, its market has a state with borrow rate \<open>r\<close>) ends with
  \<open>current_debt\<close> equal to its pre-run debt plus that debt times \<open>r / 365\<close>; position
  ids are the primary key of the table. Whatever the store and the rate source, the
  borrower run and the vault run leave \<^verbatim>\<open>vault_allocations\<close> (and so \<^verbatim>\<open>supply_assets\<close>)
  as they were, and the vault run leaves the positions as they were.
\<close>

theorem debt_compounds_from_pre_run_debt:
  "(distinct (map bp_id (borrower_positions w)) \<and> p \<in> set (getActivePositions w) \<and>
    api (bp_market_id p) = Market (Some st) \<longrightarrow>
      (\<exists>w'. processDailySnapshot api now w = Inr w' \<and>
         [bp \<leftarrow> borrower_positions w'. bp_id bp = bp_id p] =
           [p\<lparr>bp_current_debt :=
                 bp_current_debt p + bp_current_debt p * (borrowApy st / 365),
               bp_updated_at := now\<rparr>] \<and>
         vault_allocations w' = vault_allocations w)) \<and>
   (\<exists>w'. processDailySnapshot api now w = Inr w' \<and>
      vault_allocations w' = vault_allocations w) \<and>
   (\<exists>w'. processDailySupplySnapshots api w = Inr w' \<and>
      vault_allocations w' = vault_allocations w \<and>
      borrower_positions w' = borrower_positions w)"
proof (intro conjI impI)
  assume "distinct (map bp_id (borrower_positions w)) \<and> p \<in> set (getActivePositions w) \<and>
    api (bp_market_id p) = Market (Some st)"
  then have ids: "distinct (map bp_id (borrower_positions w))"
    and p: "p \<in> set (getActivePositions w)"
    and st: "api (bp_market_id p) = Market (Some st)" by simp_all
  let ?ps = "getActivePositions w"
  let ?w0 = "console_add (Log_found_positions (length ?ps)) w"
  define out where "out = processPositions api now ?ps (?w0, 0, 0)"
  have ne: "?ps \<noteq> []" using p by auto
  have res: "processDailySnapshot api now w =
      Inr (console_add (Log_created_reimbursements (snd (snd out)))
             (console_add (Log_processed (fst (snd out)) (length ?ps)) (fst out)))"
    unfolding out_def by (rule processDailySnapshot_nonempty [OF ne])
  have inj: "inj_on bp_id (set (borrower_positions w))"
    using ids by (simp add: distinct_map)
  have mem: "p \<in> set (borrower_positions w)" using p getActivePositions_subset by blast
  have uniq: "\<forall>q \<in> set ?ps. bp_id q = bp_id p \<longrightarrow> q = p"
    using inj mem getActivePositions_subset [of w] by (auto dest: inj_onD)
  have "[bp \<leftarrow> borrower_positions (fst out). bp_id bp = bp_id p]
      = map (\<lambda>bp. bp\<lparr>bp_current_debt :=
                         bp_current_debt p + bp_current_debt p * (borrowApy st / 365),
                       bp_updated_at := now\<rparr>)
          [bp \<leftarrow> borrower_positions ?w0. bp_id bp = bp_id p]"
    unfolding out_def by (rule processPositions_touched [where api=api, OF p uniq st])
  also have "[bp \<leftarrow> borrower_positions ?w0. bp_id bp = bp_id p] = [p]"
    using filter_distinct_key [OF ids mem] by simp
  finally have debt: "[bp \<leftarrow> borrower_positions (fst out). bp_id bp = bp_id p]
      = [p\<lparr>bp_current_debt := bp_current_debt p + bp_current_debt p * (borrowApy st / 365),
           bp_updated_at := now\<rparr>]"
    by simp
  have "vault_allocations (fst out) = vault_allocations ?w0"
    unfolding out_def
    by (rule processPositions_rel [where R = "\<lambda>a b. vault_allocations b = vault_allocations a"])
       (auto dest: processPosition_tables(3))
  then have va: "vault_allocations (fst out) = vault_allocations w" by simp
  show "\<exists>w'. processDailySnapshot api now w = Inr w' \<and>
            [bp \<leftarrow> borrower_positions w'. bp_id bp = bp_id p] =
              [p\<lparr>bp_current_debt :=
                    bp_current_debt p + bp_current_debt p * (borrowApy st / 365),
                  bp_updated_at := now\<rparr>] \<and>
            vault_allocations w' = vault_allocations w"
    unfolding res using debt va by simp
next
  obtain w' where run: "processDailySnapshot api now w = Inr w'"
    using processDailySnapshot_total by blast
  have "vault_allocations w' = vault_allocations w"
    by (rule processDailySnapshot_rel [where R = "\<lambda>a b.
          vault_allocations b = vault_allocations a", OF _ _ _ _ run])
       (auto dest: processPosition_tables(3))
  with run show "\<exists>w'. processDailySnapshot api now w = Inr w' \<and>
      vault_allocations w' = vault_allocations w"
    by blast
next
  obtain w' where run: "processDailySupplySnapshots api w = Inr w'"
    using processDailySupplySnapshots_total by blast
  have "vault_allocations w' = vault_allocations w \<and>
      borrower_positions w' = borrower_positions w"
    by (rule processDailySupplySnapshots_rel [where R = "\<lambda>a b.
          vault_allocations b = vault_allocations a \<and>
          borrower_positions b = borrower_positions a", OF _ _ _ _ run])
       (auto dest: processAllocation_frame)
  with run show "\<exists>w'. processDailySupplySnapshots api w = Inr w' \<and>
            vault_allocations w' = vault_allocations w \<and>
            borrower_positions w' = borrower_positions w"
    by blast
qed

theorem debt_compounds_from_pre_run_debt_witness:
  "(\<exists>w'. processDailySnapshot demo_api 0 demo_world = Inr w' \<and>
      map bp_current_debt (borrower_positions w') = [1000 + 1000 * ((18 / 100) / 365)] \<and>
      map va_supply_assets (vault_allocations w') = [1000]) \<and>
   (\<exists>w'. processDailySupplySnapshots demo_api demo_world = Inr w' \<and>
      map va_supply_assets (vault_allocations w') = [1000] \<and>
      map bp_current_debt (borrower_positions w') = [1000])"
proof -
  note inst = debt_compounds_from_pre_run_debt
      [where api = demo_api and p = demo_position and w = demo_world and st = demo_state
       and now = 0]
  have h: "distinct (map bp_id (borrower_positions demo_world)) \<and>
      demo_position \<in> set (getActivePositions demo_world) \<and>
      demo_api (bp_market_id demo_position) = Market (Some demo_state)"
    by (simp add: demo_positions) (simp add: demo_defs)
  from inst h obtain w1 where w1: "processDailySnapshot demo_api 0 demo_world = Inr w1"
    "vault_allocations w1 = vault_allocations demo_world"
    by blast
  from w1(1) have d1: "map bp_current_debt (borrower_positions w1)
      = [1000 + 1000 * ((18 / 100) / 365)]"
    unfolding demo_run by (auto simp: demo_defs)
  from w1(2) have a1: "map va_supply_assets (vault_allocations w1) = [1000]"
    by (simp add: demo_defs)
  from inst obtain w2 where w2: "processDailySupplySnapshots demo_api demo_world = Inr w2"
    and f2: "vault_allocations w2 = vault_allocations demo_world"
      "borrower_positions w2 = borrower_positions demo_world"
    by blast
  from f2 have r2: "map va_supply_assets (vault_allocations w2) = [1000]"
    "map bp_current_debt (borrower_positions w2) = [1000]"
    by (simp_all add: demo_defs)
  have part1: "\<exists>w'. processDailySnapshot demo_api 0 demo_world = Inr w' \<and>
      map bp_current_debt (borrower_positions w') = [1000 + 1000 * ((18 / 100) / 365)] \<and>
      map va_supply_assets (vault_allocations w') = [1000]"
    by (intro exI [of _ w1] conjI w1(1) d1 a1)
  have part2: "\<exists>w'. processDailySupplySnapshots demo_api demo_world = Inr w' \<and>
      map va_supply_assets (vault_allocations w') = [1000] \<and>
      map bp_current_debt (borrower_positions w') = [1000]"
    by (intro exI [of _ w2] conjI w2 r2)
  show ?thesis by (intro conjI part1 part2)
qed

subsection \<open>Running the Snapshot Engine twice on one day\<close>

text \<open>
  The vault path upserts: the key (vault, market, day) stays unique in
  \<^verbatim>\<open>vault_supply_snapshots\<close> over a whole run.
\<close>

lemma vs_conflict_key: "vs_conflict d s \<longleftrightarrow> vs_key s = vs_key d"
  by (auto simp: vs_conflict_def vs_key_def)

lemma saveSupplySnapshot_keys:
  "map vs_key (vault_supply_snapshots (saveSupplySnapshot d w)) =
     (if vs_key d \<in> set (map vs_key (vault_supply_snapshots w))
      then map vs_key (vault_supply_snapshots w)
      else map vs_key (vault_supply_snapshots w) @ [vs_key d])"
proof (cases "\<exists>s \<in> set (vault_supply_snapshots w). vs_conflict d s")
  case True
  then obtain s where "s \<in> set (vault_supply_snapshots w)" "vs_key s = vs_key d"
    by (auto simp: vs_conflict_key)
  then have in_keys: "vs_key d \<in> set (map vs_key (vault_supply_snapshots w))"
    by (metis image_eqI set_map)
  have "map vs_key (map (\<lambda>s. if vs_conflict d s
                         then s\<lparr>vs_supply_amount := a, vs_supply_apy := b,
                                vs_capped_apy := c, vs_interest_earned := e,
                                vs_interest_above_cap := f, vs_loan_asset := g\<rparr>
                         else s) xs) = map vs_key xs" for a b c e f g xs
    by (induction xs) (simp_all add: vs_key_def)
  with True in_keys show ?thesis by (simp add: saveSupplySnapshot_def)
next
  case False
  then have "vs_key d \<notin> set (map vs_key (vault_supply_snapshots w))"
    by (auto simp: vs_conflict_key)
  with False show ?thesis by (simp add: saveSupplySnapshot_def)
qed

lemma processAllocation_keys_distinct:
  assumes "processAllocation api a w = Inr w'"
    "distinct (map vs_key (vault_supply_snapshots w))"
  shows "distinct (map vs_key (vault_supply_snapshots w'))"
  using assms
  by (cases rule: processAllocation_cases [of api a w])
     (auto simp: saveSupplySnapshot_keys)

lemma vault_supply_snapshots_keys_distinct:
  assumes "processDailySupplySnapshots api w = Inr w'"
    "distinct (map vs_key (vault_supply_snapshots w))"
  shows "distinct (map vs_key (vault_supply_snapshots w'))"
  using processDailySupplySnapshots_rel [where R = "\<lambda>a b.
          distinct (map vs_key (vault_supply_snapshots a)) \<longrightarrow>
          distinct (map vs_key (vault_supply_snapshots b))", OF _ _ _ _ assms(1)]
    processAllocation_keys_distinct assms(2)
  by auto

lemma demo_run_again:
  "processDailySnapshot demo_api 10 demo_world_after_run =
     Inr (demo_world_after_run
       \<lparr>borrower_positions :=
          [demo_position\<lparr>bp_current_debt := (1000 + 36 / 73) + (1000 + 36 / 73) * (18 / 100) / 365,
                         bp_updated_at := 10\<rparr>],
        interest_snapshots :=
          [demo_snapshot,
           \<lparr>is_position_id = 1, is_snapshot_date = 0, is_current_rate = 18 / 100,
            is_capped_rate = 12 / 100,
            is_interest_accrued = (1000 + 36 / 73) * (18 / 100) / 365,
            is_interest_above_cap = (1000 + 36 / 73) * (6 / 100) / 365\<rparr>],
        reimbursements :=
          reimbursements demo_world_after_run @
          [\<lparr>r_id = 2, r_position_id = 1,
            r_amount = decimal18 ((1000 + 36 / 73) * (6 / 100) / 365),
            r_period_start = - 1, r_period_end = 0, r_status = Pending, r_tx_hash = None,
            r_created_at = 10, r_processed_at = None\<rparr>],
        reimbursements_id_seq := 3,
        console := console demo_world_after_run @
                   [Log_found_positions 1,
                    Log_reimbursement_created 1 ((1000 + 36 / 73) * (6 / 100) / 365),
                    Log_processed 1 1, Log_created_reimbursements 1]\<rparr>)"
proof -
  have ps: "getActivePositions demo_world_after_run
      = [demo_position\<lparr>bp_current_debt := 1000 + 36 / 73\<rparr>]"
    by (simp add: getActivePositions_def has_market_def demo_world_after_run_def demo_defs)
  show ?thesis
    unfolding processDailySnapshot_def ps Let_def
    by (simp add: processPosition_def getMarketState_def getCappedRate_def Let_def
      saveInterestSnapshot_def createReimbursement_def updatePositionDebt_def console_add_def
      checkRecentReimbursement_def date_of_def demo_defs demo_snapshot_def
      demo_world_after_run_def)
qed

text \<open>
  Claim C1. A second run of the Snapshot Engine on the same day should leave one
  snapshot per (entity, market, day). The vault path above does; the borrower path does
  not: \<^verbatim>\<open>saveInterestSnapshot\<close> is a plain \<^verbatim>\<open>INSERT\<close> into a table without a unique
  constraint. The second run of day 0 on the demo store leaves two snapshots of
  (position 1, day 0), two reimbursements, and a debt compounded twice.
\<close>

theorem interest_snapshot_rerun_duplicates:
  "processDailySnapshot demo_api 0 demo_world = Inr demo_world_after_run \<and>
   map is_position_id
     (interest_snapshots (projr (processDailySnapshot demo_api 10 demo_world_after_run)))
     = [1, 1] \<and>
   map is_snapshot_date
     (interest_snapshots (projr (processDailySnapshot demo_api 10 demo_world_after_run)))
     = [0, 0] \<and>
   length (reimbursements (projr (processDailySnapshot demo_api 10 demo_world_after_run))) = 2"
  unfolding demo_run_again
  by (simp add: demo_run demo_world_after_run_def demo_snapshot_def)

subsection \<open>Retrying failed reimbursements\<close>

text \<open>
  Claim C9, as stated: the rows to reset are selected most-recently-failed first. The
  query orders by \<^verbatim>\<open>created_at DESC\<close> and does not read \<^verbatim>\<open>processed_at\<close>, the instant
  of the failure: with a limit of 1, of a row created at 1 that failed at 10 and a row
  created at 2 that failed at 5, the second is reset and the first stays failed.
\<close>

theorem retry_order_counterexample:
  "map r_processed_at (reimbursements demo_world_failed) = [Some 10, Some 5] \<and>
   map r_status (reimbursements demo_world_failed) = [Failed, Failed] \<and>
   map r_status (reimbursements (fst (projr (retryFailedReimbursements 1 demo_world_failed))))
     = [Failed, Pending]"
  by (simp add: retryFailedReimbursements_def failedToRetry_def Let_def demo_world_failed_def
      demo_failed_def demo_world_def)

lemma sorted_take_drop:
  assumes "sorted (map f xs)" "x \<in> set (take n xs)" "y \<in> set (drop n xs)"
  shows "f x \<le> f y"
proof -
  have "sorted (map f (take n xs) @ map f (drop n xs))"
    using assms(1) by (simp flip: map_append)
  then have "\<forall>a \<in> set (map f (take n xs)). \<forall>b \<in> set (map f (drop n xs)). a \<le> b"
    by (simp add: sorted_append)
  with assms(2,3) show ?thesis by simp
qed

lemma length_filter_mem:
  assumes "distinct xs" "distinct ys" "set ys \<subseteq> set xs"
  shows "length [x \<leftarrow> xs. x \<in> set ys] = length ys"
proof -
  have "length [x \<leftarrow> xs. x \<in> set ys] = card ({x. x \<in> set ys} \<inter> set xs)"
    by (rule distinct_length_filter [OF assms(1)])
  also have "{x. x \<in> set ys} \<inter> set xs = set ys" using assms(3) by auto
  also have "card (set ys) = length ys" by (rule distinct_card [OF assms(2)])
  finally show ?thesis .
qed

text \<open>
  Claim C9, amended. For a limit \<open>N \<ge> 0\<close> the call resets the \<open>min N f\<close> most recently
  created of the \<open>f\<close> failed rows (an unselected failed row is never newer than a
  selected one) to \<open>pending\<close> with \<open>tx_hash\<close> and \<open>processed_at\<close> null, leaves the other
  columns of those rows, all other rows and all other tables as they were, and returns
  the number of rows it has reset. It takes no random stream: no payment is simulated.
  A negative limit is refused by the database and nothing changes.
\<close>

theorem retry_resets_most_recently_created:
  assumes ids: "distinct (map r_id (reimbursements w))"
  shows "(0 \<le> limit \<longrightarrow>
          (\<exists>sel. set sel \<subseteq> {r \<in> set (reimbursements w). r_status r = Failed} \<and>
             distinct sel \<and>
             length sel = min (nat limit) (length [r \<leftarrow> reimbursements w. r_status r = Failed]) \<and>
             (\<forall>r \<in> set sel. \<forall>r' \<in> set (reimbursements w).
                 r_status r' = Failed \<and> r' \<notin> set sel \<longrightarrow> r_created_at r' \<le> r_created_at r) \<and>
             retryFailedReimbursements limit w =
               Inr (w\<lparr>reimbursements :=
                        map (\<lambda>r. if r \<in> set sel
                                  then r\<lparr>r_status := Pending, r_tx_hash := None,
                                         r_processed_at := None\<rparr>
                                  else r)
                            (reimbursements w)\<rparr>,
                    length sel))) \<and>
         (limit < 0 \<longrightarrow> (\<exists>e. retryFailedReimbursements limit w = Inl e))"
proof (intro conjI impI)
  assume "limit < 0"
  then show "\<exists>e. retryFailedReimbursements limit w = Inl e"
    by (simp add: retryFailedReimbursements_def)
next
  assume limit: "0 \<le> limit"
  let ?rows = "reimbursements w"
  let ?failed = "[r \<leftarrow> ?rows. r_status r = Failed]"
  let ?sorted = "sort_key (\<lambda>r. - r_created_at r) ?failed"
  define sel where "sel = take (nat limit) ?sorted"
  have ids_sel: "failedToRetry w (nat limit) = map r_id sel"
    by (simp add: failedToRetry_def sel_def)
  have rows_distinct: "distinct ?rows" using ids by (rule distinct_map [THEN iffD1, THEN conjunct1])
  have inj: "inj_on r_id (set ?rows)" using ids by (simp add: distinct_map)
  have sub: "set sel \<subseteq> {r \<in> set ?rows. r_status r = Failed}"
  proof
    fix r assume "r \<in> set sel"
    then have "r \<in> set ?sorted" unfolding sel_def by (rule in_set_takeD)
    then show "r \<in> {r \<in> set ?rows. r_status r = Failed}" by simp
  qed
  have dist: "distinct sel"
    unfolding sel_def using rows_distinct by (simp add: distinct_take)
  have len: "length sel = min (nat limit) (length ?failed)"
    unfolding sel_def by (simp add: min.commute)
  have order: "r_created_at r' \<le> r_created_at r"
    if "r \<in> set sel" "r' \<in> set ?rows" "r_status r' = Failed" "r' \<notin> set sel" for r r'
  proof -
    from that(2,3) have "r' \<in> set ?sorted" by simp
    then have "r' \<in> set (take (nat limit) ?sorted) \<union> set (drop (nat limit) ?sorted)"
      by (simp flip: set_append)
    with that(4) have r': "r' \<in> set (drop (nat limit) ?sorted)" by (simp add: sel_def)
    have "sorted (map (\<lambda>r. - r_created_at r) ?sorted)" by (rule sorted_sort_key)
    from sorted_take_drop [OF this that(1) [unfolded sel_def] r']
    show ?thesis by simp
  qed
  have hit: "(r_status r = Failed \<and> r_id r \<in> r_id ` set sel) \<longleftrightarrow> r \<in> set sel"
    if "r \<in> set ?rows" for r
  proof
    assume "r_status r = Failed \<and> r_id r \<in> r_id ` set sel"
    then obtain s where s: "s \<in> set sel" "r_id s = r_id r" by auto
    with sub have "s \<in> set ?rows" by auto
    with inj that s(2) have "s = r" by (auto dest: inj_onD)
    with s(1) show "r \<in> set sel" by simp
  next
    assume "r \<in> set sel"
    with sub show "r_status r = Failed \<and> r_id r \<in> r_id ` set sel" by auto
  qed
  have count: "length [r \<leftarrow> ?rows. r_status r = Failed \<and> r_id r \<in> set (map r_id sel)]
      = length sel"
  proof -
    have "[r \<leftarrow> ?rows. r_status r = Failed \<and> r_id r \<in> set (map r_id sel)]
        = [r \<leftarrow> ?rows. r \<in> set sel]"
      by (rule filter_cong) (simp_all add: hit)
    also have "length \<dots> = length sel"
      using sub by (intro length_filter_mem [OF rows_distinct dist]) auto
    finally show ?thesis .
  qed
  have rows': "map (\<lambda>r. if r_status r = Failed \<and> r_id r \<in> set (map r_id sel)
                         then r\<lparr>r_status := Pending, r_tx_hash := None,
                                r_processed_at := None\<rparr>
                         else r) ?rows
      = map (\<lambda>r. if r \<in> set sel
                  then r\<lparr>r_status := Pending, r_tx_hash := None, r_processed_at := None\<rparr>
                  else r) ?rows"
    by (rule map_cong) (simp_all add: hit)
  have run: "retryFailedReimbursements limit w =
               Inr (w\<lparr>reimbursements :=
                        map (\<lambda>r. if r \<in> set sel
                                  then r\<lparr>r_status := Pending, r_tx_hash := None,
                                         r_processed_at := None\<rparr>
                                  else r)
                            (reimbursements w)\<rparr>,
                    length sel)"
    using limit unfolding retryFailedReimbursements_def Let_def ids_sel rows' count by simp
  show "\<exists>sel. set sel \<subseteq> {r \<in> set (reimbursements w). r_status r = Failed} \<and>
             distinct sel \<and>
             length sel = min (nat limit) (length [r \<leftarrow> reimbursements w. r_status r = Failed]) \<and>
             (\<forall>r \<in> set sel. \<forall>r' \<in> set (reimbursements w).
                 r_status r' = Failed \<and> r' \<notin> set sel \<longrightarrow> r_created_at r' \<le> r_created_at r) \<and>
             retryFailedReimbursements limit w =
               Inr (w\<lparr>reimbursements :=
                        map (\<lambda>r. if r \<in> set sel
                                  then r\<lparr>r_status := Pending, r_tx_hash := None,
                                         r_processed_at := None\<rparr>
                                  else r)
                            (reimbursements w)\<rparr>,
                    length sel)"
    by (rule exI [of _ sel]) (use sub dist len order run in blast)
qed

theorem retry_resets_most_recently_created_witness:
  "map r_status (reimbursements (fst (projr (retryFailedReimbursements 1 demo_world_failed))))
     = [Failed, Pending] \<and>
   map r_created_at (reimbursements demo_world_failed) = [1, 2] \<and>
   snd (projr (retryFailedReimbursements 1 demo_world_failed)) = 1 \<and>
   (\<exists>e. retryFailedReimbursements (- 1) demo_world_failed = Inl e)"
proof -
  have ids: "distinct (map r_id (reimbursements demo_world_failed))"
    by (simp add: demo_world_failed_def demo_failed_def demo_world_def)
  from retry_resets_most_recently_created [OF ids, of "- 1"]
  have neg: "\<exists>e. retryFailedReimbursements (- 1) demo_world_failed = Inl e" by simp
  from retry_resets_most_recently_created [OF ids, of 1]
  obtain sel :: "reimbursement list" and w' where sel:
    "length sel = min (nat 1) (length [r \<leftarrow> reimbursements demo_world_failed. r_status r = Failed])"
    "retryFailedReimbursements 1 demo_world_failed = Inr (w', length sel)"
    by auto
  from sel(1) have "length sel = 1"
    by (simp add: demo_world_failed_def demo_failed_def demo_world_def)
  with sel(2) have count: "snd (projr (retryFailedReimbursements 1 demo_world_failed)) = 1"
    by simp
  have "map r_status (reimbursements (fst (projr (retryFailedReimbursements 1 demo_world_failed))))
     = [Failed, Pending]"
    "map r_created_at (reimbursements demo_world_failed) = [1, 2]"
    by (simp_all add: retryFailedReimbursements_def failedToRetry_def Let_def
        demo_world_failed_def demo_failed_def demo_world_def)
  with neg count show ?thesis by simp
qed

subsection \<open>The loop of \<^verbatim>\<open>processPendingReimbursements\<close>\<close>

lemma settled_id [simp]: "r_id (settled now out r) = r_id r"
  by (cases out) simp_all

lemma processReimbursements_step:
  assumes "simulatePayment random k = (out, k')"
  shows "processReimbursements random now (x # rest) (w, k, res) =
     processReimbursements random now rest
       (w\<lparr>reimbursements :=
            map (\<lambda>r. if r_id r = r_id x then settled now out r else r) (reimbursements w)\<rparr>,
        k', counted out x res)"
  using assms by (cases out) (simp_all add: markCompleted_def markFailed_def cong: if_cong)

lemma payment_outcomes_step:
  assumes "simulatePayment random k = (out, k')"
  shows "payment_outcomes random k (Suc n) = out # payment_outcomes random k' n"
  using assms by simp

lemma length_payment_outcomes [simp]: "length (payment_outcomes random k n) = n"
  by (induction n arbitrary: k) simp_all

lemma processReimbursements_rows:
  assumes "distinct (map r_id sel)"
  shows "reimbursements (fst (processReimbursements random now sel (w, k, res))) =
     map (\<lambda>r. case map_of (zip (map r_id sel) (payment_outcomes random k (length sel))) (r_id r)
               of None \<Rightarrow> r | Some out \<Rightarrow> settled now out r)
       (reimbursements w)"
  using assms
proof (induction sel arbitrary: w k res)
  case Nil
  show ?case by simp
next
  case (Cons x sel)
  obtain out k' where pay: "simulatePayment random k = (out, k')"
    by (cases "simulatePayment random k")
  let ?outs = "payment_outcomes random k' (length sel)"
  from Cons.prems have fresh: "r_id x \<notin> set (map r_id sel)" and dist: "distinct (map r_id sel)"
    by simp_all
  have none: "map_of (zip (map r_id sel) ?outs) (r_id x) = None"
  proof -
    have "r_id x \<notin> fst ` set (zip (map r_id sel) ?outs)"
      using fresh by (auto dest: set_zip_leftD)
    then show ?thesis by (simp add: map_of_eq_None_iff)
  qed
  have len: "length (x # sel) = Suc (length sel)" by simp
  show ?case
    unfolding processReimbursements_step [OF pay] Cons.IH [OF dist] len
      payment_outcomes_step [OF pay]
    by (simp add: none comp_def cong: map_cong)
qed

lemma processReimbursements_frame:
  "markets (fst (processReimbursements random now sel (w, k, res))) = markets w \<and>
   borrower_positions (fst (processReimbursements random now sel (w, k, res)))
     = borrower_positions w"
proof (induction sel arbitrary: w k res)
  case Nil
  show ?case by simp
next
  case (Cons x sel)
  obtain out k' where pay: "simulatePayment random k = (out, k')"
    by (cases "simulatePayment random k")
  show ?case unfolding processReimbursements_step [OF pay] using Cons.IH by simp
qed

lemma processReimbursements_counts:
  "processed (snd (snd (processReimbursements random now sel (w, k, res)))) =
     processed res + length [out \<leftarrow> payment_outcomes random k (length sel). \<not> isl out] \<and>
   failed (snd (snd (processReimbursements random now sel (w, k, res)))) =
     failed res + length [out \<leftarrow> payment_outcomes random k (length sel). isl out]"
proof (induction sel arbitrary: w k res)
  case Nil
  show ?case by simp
next
  case (Cons x sel)
  obtain out k' where pay: "simulatePayment random k = (out, k')"
    by (cases "simulatePayment random k")
  have len: "length (x # sel) = Suc (length sel)" by simp
  show ?case
    unfolding processReimbursements_step [OF pay] len payment_outcomes_step [OF pay]
    by (cases out) (simp_all add: Cons.IH)
qed

lemma length_filter_single:
  assumes "i < length xs" "\<forall>j < length xs. P (xs ! j) \<longleftrightarrow> j = i"
  shows "length (filter P xs) = 1"
proof -
  have xs: "xs = take i xs @ xs ! i # drop (Suc i) xs"
    using assms(1) by (rule id_take_nth_drop)
  have "\<forall>x \<in> set (take i xs). \<not> P x"
  proof
    fix x assume "x \<in> set (take i xs)"
    then obtain j where "j < length (take i xs)" "take i xs ! j = x"
      by (auto simp: in_set_conv_nth)
    then have "j < i" "j < length xs" "xs ! j = x" using assms(1) by simp_all
    with assms(2) show "\<not> P x" by auto
  qed
  then have a: "filter P (take i xs) = []" by (simp add: filter_empty_conv)
  have "\<forall>x \<in> set (drop (Suc i) xs). \<not> P x"
  proof
    fix x assume "x \<in> set (drop (Suc i) xs)"
    then obtain j where "j < length (drop (Suc i) xs)" "drop (Suc i) xs ! j = x"
      by (auto simp: in_set_conv_nth)
    then have "Suc i + j < length xs" "xs ! (Suc i + j) = x" by simp_all
    with assms(2) show "\<not> P x" by auto
  qed
  then have b: "filter P (drop (Suc i) xs) = []" by (simp add: filter_empty_conv)
  have c: "P (xs ! i)" using assms by simp
  have "filter P xs = filter P (take i xs @ xs ! i # drop (Suc i) xs)" using xs by simp
  also have "\<dots> = [xs ! i]" by (simp add: a b c)
  finally show ?thesis by simp
qed

lemma distinct_map_sort_key:
  "distinct (map g (sort_key f xs)) = distinct (map g xs)"
  by (simp add: distinct_map)

lemma pendingReimbursements_distinct:
  assumes "distinct (map r_id (reimbursements w))"
  shows "distinct (map r_id (pendingReimbursements w n))"
proof -
  have "distinct (map r_id [r \<leftarrow> reimbursements w. joins_position w r \<and> r_status r = Pending])"
    using assms by (rule distinct_map_filter)
  then have "distinct (take n (map r_id (sort_key r_created_at
      [r \<leftarrow> reimbursements w. joins_position w r \<and> r_status r = Pending])))"
    by (intro distinct_take) (simp add: distinct_map_sort_key)
  then show ?thesis by (simp add: pendingReimbursements_def take_map)
qed

lemma pendingReimbursements_subset:
  "set (pendingReimbursements w n) \<subseteq> set (reimbursements w)"
proof
  fix r assume "r \<in> set (pendingReimbursements w n)"
  then have "r \<in> set (sort_key r_created_at
      [r \<leftarrow> reimbursements w. joins_position w r \<and> r_status r = Pending])"
    unfolding pendingReimbursements_def by (rule in_set_takeD)
  then show "r \<in> set (reimbursements w)" by simp
qed

subsection \<open>Ten of twelve pending reimbursements\<close>

lemma demo_payment_ok:
  assumes "k + 64 < 390 \<or> 390 < k"
  shows "simulatePayment demo_random k = (Inr (''0x'' @ replicate 64 CHR ''8''), k + 65)"
proof -
  have "map (\<lambda>j. hex_digit (nat \<lfloor>demo_random (k + 1 + j) * 16\<rfloor>)) [0..<64]
      = map (\<lambda>j. CHR ''8'') [0..<64]"
  proof (rule map_cong [OF refl])
    fix j assume "j \<in> set [0..<64]"
    then have "k + 1 + j \<noteq> 390" using assms by auto
    then show "hex_digit (nat \<lfloor>demo_random (k + 1 + j) * 16\<rfloor>) = CHR ''8''"
      by (simp add: demo_random_def hex_digit_def)
  qed
  also have "\<dots> = replicate 64 CHR ''8''" by (simp add: map_replicate_const)
  finally show ?thesis using assms by (auto simp add: simulatePayment_def demo_random_def)
qed

lemma demo_payment_fails:
  "simulatePayment demo_random 390 = (Inl (Error ''Simulated payment failure''), 391)"
  by (simp add: simulatePayment_def demo_random_def)

lemma demo_outcomes:
  "payment_outcomes demo_random 0 10 =
     replicate 6 (Inr (''0x'' @ replicate 64 CHR ''8''))
     @ [Inl (Error ''Simulated payment failure'')]
     @ replicate 3 (Inr (''0x'' @ replicate 64 CHR ''8''))"
proof -
  have ten: "(10::nat) = Suc (Suc (Suc (Suc (Suc (Suc (Suc (Suc (Suc (Suc 0)))))))))"
    by simp
  have rep: "replicate 6 x = [x, x, x, x, x, x]" "replicate 3 x = [x, x, x]" for x :: "exn + string"
    by (simp_all add: numeral_eq_Suc)
  show ?thesis
    unfolding ten rep
    by (simp add: demo_payment_ok demo_payment_fails)
qed

lemma demo_pending_rows:
  "[r \<leftarrow> reimbursements demo_world_pending.
      joins_position demo_world_pending r \<and> r_status r = Pending]
   = map demo_pending [1..<13]"
proof -
  have "joins_position demo_world_pending (demo_pending n) \<and> r_status (demo_pending n) = Pending"
    for n
    by (simp add: joins_position_def has_market_def demo_world_pending_def demo_pending_def
        demo_defs)
  then show ?thesis
    by (simp add: demo_world_pending_def filter_map comp_def)
qed

lemma demo_pending_ids: "map r_id (reimbursements demo_world_pending) = [1..<13]"
  by (simp add: demo_world_pending_def demo_pending_def comp_def)

lemma demo_selected_length: "length (pendingReimbursements demo_world_pending 10) = 10"
  by (simp add: pendingReimbursements_def demo_pending_rows)

lemma all_less_10:
  "(\<forall>i < 10. P i) \<longleftrightarrow>
     P 0 \<and> P 1 \<and> P 2 \<and> P 3 \<and> P 4 \<and> P 5 \<and> P 6 \<and> P 7 \<and> P 8 \<and> P (9::nat)"
proof -
  have "(\<forall>i < 10. P i) \<longleftrightarrow> (\<forall>i \<in> set [0..<10]. P i)" by auto
  also have "[0..<10] = [0, 1, 2, 3, 4, 5, 6, 7, 8, 9::nat]" by (simp add: upt_rec)
  finally show ?thesis by simp
qed

lemma demo_seventh_fails:
  "\<forall>i < 10. isl (payment_outcomes demo_random 0 10 ! i) \<longleftrightarrow> i = 6"
  unfolding demo_outcomes all_less_10 by (simp add: numeral_eq_Suc)

text \<open>
  Claim C4, as stated: with a limit of 10, twelve pending reimbursements and a failure
  of the seventh payment the call returns \<open>processed = 11\<close>. The query has
  \<^verbatim>\<open>LIMIT 10\<close>, so ten rows are paid: on the demo store (twelve pending rows, only
  the seventh payment fails) the call returns \<open>processed = 9\<close> and \<open>failed = 1\<close>. The
  demo stream also shows that the references of the stub need not differ.
\<close>

theorem process_limit_counterexample:
  "map r_status (reimbursements demo_world_pending) = replicate 12 Pending \<and>
   map isl (payment_outcomes demo_random 0 10)
     = [False, False, False, False, False, False, True, False, False, False] \<and>
   processed (snd (snd (projr
     (processPendingReimbursements demo_random 0 10 0 demo_world_pending)))) = 9 \<and>
   failed (snd (snd (projr
     (processPendingReimbursements demo_random 0 10 0 demo_world_pending)))) = 1 \<and>
   payment_outcomes demo_random 0 10 ! 0 = payment_outcomes demo_random 0 10 ! 1"
proof -
  have twelve: "map r_status (reimbursements demo_world_pending) = replicate 12 Pending"
    by (simp add: demo_world_pending_def demo_pending_def comp_def map_replicate_const)
  have outs: "map isl (payment_outcomes demo_random 0 10)
     = [False, False, False, False, False, False, True, False, False, False]"
    "payment_outcomes demo_random 0 10 ! 0 = payment_outcomes demo_random 0 10 ! 1"
    unfolding demo_outcomes by (simp_all add: numeral_eq_Suc)
  have filt: "length [out \<leftarrow> payment_outcomes demo_random 0 10. \<not> isl out] = 9"
    "length [out \<leftarrow> payment_outcomes demo_random 0 10. isl out] = 1"
    unfolding demo_outcomes by simp_all
  have run: "processPendingReimbursements demo_random 0 10 0 demo_world_pending =
      Inr (processReimbursements demo_random 0 (pendingReimbursements demo_world_pending 10)
             (demo_world_pending, 0, \<lparr>processed = 0, failed = 0, totalAmount = 0\<rparr>))"
    by (simp add: processPendingReimbursements_def)
  show ?thesis
    unfolding run sum.sel
    using processReimbursements_counts [of demo_random 0
        "pendingReimbursements demo_world_pending 10" demo_world_pending 0
        "\<lparr>processed = 0, failed = 0, totalAmount = 0\<rparr>"]
    by (simp add: demo_selected_length filt twelve outs)
qed

text \<open>
  Claim C4, amended. With a limit of 10 and twelve pending reimbursements the call
  selects ten rows. If of their ten payments exactly the seventh fails, the call returns
  \<open>processed = 9\<close> and \<open>failed = 1\<close>; the seventh selected row ends \<open>failed\<close> with its
  \<open>processed_at\<close> set, each of the nine others ends \<open>completed\<close> with the reference its
  payment returned, and every row that was not selected (the two remaining pending rows
  among them) is unchanged: the failure does not undo the payments of the same call.
\<close>

theorem process_ten_of_twelve_pending:
  assumes ids: "distinct (map r_id (reimbursements w))"
    and twelve: "length [r \<leftarrow> reimbursements w. joins_position w r \<and> r_status r = Pending] = 12"
    and fail7: "\<forall>i < 10. isl (payment_outcomes random k 10 ! i) \<longleftrightarrow> i = 6"
  shows "\<exists>w' k' amount.
     processPendingReimbursements random k 10 now w =
       Inr (w', k', \<lparr>processed = 9, failed = 1, totalAmount = amount\<rparr>) \<and>
     length (pendingReimbursements w 10) = 10 \<and>
     (\<forall>i < 10. i \<noteq> 6 \<longrightarrow>
        (pendingReimbursements w 10 ! i)
          \<lparr>r_status := Completed,
           r_tx_hash := Some (projr (payment_outcomes random k 10 ! i)),
           r_processed_at := Some now\<rparr> \<in> set (reimbursements w')) \<and>
     (pendingReimbursements w 10 ! 6)\<lparr>r_status := Failed, r_processed_at := Some now\<rparr>
        \<in> set (reimbursements w') \<and>
     (\<forall>r \<in> set (reimbursements w).
        r \<notin> set (pendingReimbursements w 10) \<longrightarrow> r \<in> set (reimbursements w')) \<and>
     length (reimbursements w') = length (reimbursements w)"
proof -
  let ?sel = "pendingReimbursements w 10"
  let ?outs = "payment_outcomes random k 10"
  let ?res0 = "\<lparr>processed = 0, failed = 0, totalAmount = 0\<rparr>"
  define F where "F = (\<lambda>r. case map_of (zip (map r_id ?sel) ?outs) (r_id r)
               of None \<Rightarrow> r | Some out \<Rightarrow> settled now out r)"
  have len: "length ?sel = 10"
    using twelve by (simp add: pendingReimbursements_def)
  have dist: "distinct (map r_id ?sel)" by (rule pendingReimbursements_distinct [OF ids])
  have sub: "set ?sel \<subseteq> set (reimbursements w)" by (rule pendingReimbursements_subset)
  have inj: "inj_on r_id (set (reimbursements w))" using ids by (simp add: distinct_map)
  obtain w' k' res where run: "processReimbursements random now ?sel (w, k, ?res0) = (w', k', res)"
    by (cases "processReimbursements random now ?sel (w, k, ?res0)")
  have call: "processPendingReimbursements random k 10 now w = Inr (w', k', res)"
    by (simp add: processPendingReimbursements_def run)
  have rows: "reimbursements w' = map F (reimbursements w)"
    using processReimbursements_rows [OF dist, of random now w k ?res0]
    by (simp add: run len F_def)
  have one: "length [out \<leftarrow> ?outs. isl out] = 1"
    by (rule length_filter_single [of 6]) (use fail7 in simp_all)
  have "length [out \<leftarrow> ?outs. isl out] + length [out \<leftarrow> ?outs. \<not> isl out] = length ?outs"
    by (rule sum_length_filter_compl)
  with one have nine: "length [out \<leftarrow> ?outs. \<not> isl out] = 9" by simp
  have counts: "processed res = 9" "failed res = 1"
    using processReimbursements_counts [of random now ?sel w k ?res0]
    by (simp_all add: run len one nine)
  have res: "res = \<lparr>processed = 9, failed = 1, totalAmount = totalAmount res\<rparr>"
    using counts by (cases res) simp
  have item: "settled now (?outs ! i) (?sel ! i) \<in> set (reimbursements w')" if "i < 10" for i
  proof -
    have "map_of (zip (map r_id ?sel) ?outs) (map r_id ?sel ! i) = Some (?outs ! i)"
      by (rule map_of_zip_nth) (use that len dist in simp_all)
    then have eq: "F (?sel ! i) = settled now (?outs ! i) (?sel ! i)"
      using that len by (simp add: F_def)
    have "?sel ! i \<in> set ?sel" using that len by simp
    with sub have "?sel ! i \<in> set (reimbursements w)" by (rule subsetD)
    then have "F (?sel ! i) \<in> F ` set (reimbursements w)" by (rule imageI)
    then show ?thesis unfolding rows eq by simp
  qed
  have good: "(?sel ! i)\<lparr>r_status := Completed, r_tx_hash := Some (projr (?outs ! i)),
           r_processed_at := Some now\<rparr> \<in> set (reimbursements w')"
    if "i < 10" "i \<noteq> 6" for i
  proof -
    from fail7 that have "\<not> isl (?outs ! i)" by simp
    then obtain h where "?outs ! i = Inr h" by (cases "?outs ! i") simp_all
    with item [OF that(1)] show ?thesis by simp
  qed
  have bad: "(?sel ! 6)\<lparr>r_status := Failed, r_processed_at := Some now\<rparr>
      \<in> set (reimbursements w')"
  proof -
    from fail7 have "isl (?outs ! 6)" by simp
    then obtain e where "?outs ! 6 = Inl e" by (cases "?outs ! 6") simp_all
    with item [of 6] show ?thesis by simp
  qed
  have rest: "r \<in> set (reimbursements w')"
    if "r \<in> set (reimbursements w)" "r \<notin> set ?sel" for r
  proof -
    have "r_id r \<notin> set (map r_id ?sel)"
    proof
      assume "r_id r \<in> set (map r_id ?sel)"
      then obtain s where s: "s \<in> set ?sel" "r_id s = r_id r" by auto
      with sub have "s \<in> set (reimbursements w)" by auto
      with inj that(1) s(2) have "s = r" by (auto dest: inj_onD)
      with s(1) that(2) show False by simp
    qed
    then have "r_id r \<notin> fst ` set (zip (map r_id ?sel) ?outs)"
      by (auto dest: set_zip_leftD)
    then have "map_of (zip (map r_id ?sel) ?outs) (r_id r) = None"
      by (simp add: map_of_eq_None_iff)
    then have eq: "F r = r" by (simp add: F_def)
    from that(1) have "F r \<in> F ` set (reimbursements w)" by (rule imageI)
    then show ?thesis unfolding rows eq by simp
  qed
  have same: "length (reimbursements w') = length (reimbursements w)"
    unfolding rows by simp
  have "processPendingReimbursements random k 10 now w =
       Inr (w', k', \<lparr>processed = 9, failed = 1, totalAmount = totalAmount res\<rparr>)"
    using call res by simp
  moreover have "\<forall>i < 10. i \<noteq> 6 \<longrightarrow>
        (?sel ! i)\<lparr>r_status := Completed, r_tx_hash := Some (projr (?outs ! i)),
           r_processed_at := Some now\<rparr> \<in> set (reimbursements w')"
    using good by blast
  moreover have "\<forall>r \<in> set (reimbursements w). r \<notin> set ?sel \<longrightarrow> r \<in> set (reimbursements w')"
    using rest by blast
  ultimately show ?thesis
    using len bad same
    by (intro exI [of _ w'] exI [of _ k'] exI [of _ "totalAmount res"] conjI)
qed

theorem process_ten_of_twelve_pending_witness:
  "\<exists>w' k' amount.
     processPendingReimbursements demo_random 0 10 0 demo_world_pending =
       Inr (w', k', \<lparr>processed = 9, failed = 1, totalAmount = amount\<rparr>) \<and>
     length (pendingReimbursements demo_world_pending 10) = 10 \<and>
     length (reimbursements w') = 12"
proof -
  have ids: "distinct (map r_id (reimbursements demo_world_pending))"
    unfolding demo_pending_ids by simp
  have twelve: "length [r \<leftarrow> reimbursements demo_world_pending.
      joins_position demo_world_pending r \<and> r_status r = Pending] = 12"
    unfolding demo_pending_rows by simp
  have twelve_rows: "length (reimbursements demo_world_pending) = 12"
    by (simp add: demo_world_pending_def)
  from process_ten_of_twelve_pending [OF ids twelve demo_seventh_fails, of 0]
  obtain w' k' amount where run:
    "processPendingReimbursements demo_random 0 10 0 demo_world_pending =
       Inr (w', k', \<lparr>processed = 9, failed = 1, totalAmount = amount\<rparr>)"
    "length (pendingReimbursements demo_world_pending 10) = 10"
    "length (reimbursements w') = length (reimbursements demo_world_pending)"
    by blast
  show ?thesis
    using run twelve_rows
    by (intro exI [of _ w'] exI [of _ k'] exI [of _ amount]) simp
qed

end
